theory Spec2Isabelle
  imports Complex_Main
begin

section \<open>JavaScript values as they come out of \<open>JSON.parse\<close>\<close>

text \<open>
  A shard file is a JSON document. Its features and their attribute bags are kept as
  untyped values, because \<open>map.js\<close> probes them dynamically: a property may be absent
  (\<open>undefined\<close>), \<open>null\<close>, or of any type. A number is identified with the real it
  denotes; the code never computes with one, it only tests it for truthiness and passes
  it on. An object is the association list of its own properties, the binding in force
  for a key being the one \<open>map_of\<close> finds. A string is kept as the bytes of its UTF-8
  encoding.
\<close>

datatype json =
    JUndefined
  | JNull
  | JBool bool
  | JNum real
  | JStr string
  | JArr "json list"
  | JObj "(string \<times> json) list"

text \<open>ToBoolean: what \<open>if (v)\<close>, \<open>v && w\<close>, \<open>v || w\<close> and \<open>v ? a : b\<close> test.\<close>

fun truthy :: "json \<Rightarrow> bool" where
  "truthy JUndefined = False"
| "truthy JNull = False"
| "truthy (JBool b) = b"
| "truthy (JNum n) = (n \<noteq> 0)"
| "truthy (JStr s) = (s \<noteq> [])"
| "truthy (JArr xs) = True"
| "truthy (JObj kvs) = True"

text \<open>
  \<open>v.k\<close> for the keys the program reads (none of them is inherited from a prototype): an
  object yields the property or \<open>undefined\<close>, every other value \<open>undefined\<close>. On
  \<open>undefined\<close> and \<open>null\<close> the read raises a TypeError in JavaScript; the one place
  where that can happen (\<open>feature.geometry\<close>) is a branch of \<open>circleMarker_of\<close> below.
\<close>

fun get :: "json \<Rightarrow> string \<Rightarrow> json" where
  "get (JObj kvs) k = (case map_of kvs k of Some v \<Rightarrow> v | None \<Rightarrow> JUndefined)"
| "get v k = JUndefined"

text \<open>\<open>a || b\<close> and \<open>a && b\<close> on values.\<close>

definition or_js :: "json \<Rightarrow> json \<Rightarrow> json" where
  "or_js a b = (if truthy a then a else b)"

definition and_js :: "json \<Rightarrow> json \<Rightarrow> json" where
  "and_js a b = (if truthy a then b else a)"

text \<open>\<open>xs[i]\<close> on an array: out of range reads give \<open>undefined\<close>.\<close>

definition elem_at :: "json list \<Rightarrow> nat \<Rightarrow> json" where
  "elem_at xs i = (if i < length xs then xs ! i else JUndefined)"


section \<open>Errors\<close>

datatype error =
    TypeError            \<comment> \<open>property read on \<open>null\<close>/\<open>undefined\<close>, destructuring a non-iterable,
                             printing an object that has no callable \<open>toString\<close>\<close>
  | HttpError nat        \<comment> \<open>\<open>throw new Error(`HTTP error! status: ...`)\<close>\<close>
  | NetworkError         \<comment> \<open>\<open>fetch\<close> rejects\<close>
  | SyntaxError          \<comment> \<open>\<open>response.json()\<close> rejects\<close>
  | LibraryError         \<comment> \<open>the mapping library throws: \<open>Invalid LatLng object\<close>, or inside \<open>addLayers\<close>\<close>


section \<open>From a raw feature to a marker (lines 111--155)\<close>

text \<open>
  A marker is what \<open>L.circleMarker([lat, lng], {...})\<close> was called with: the position,
  and the attribute bag that the click handler closes over. The style options are
  constants and are left out.
\<close>

record marker =
  latlng :: "json \<times> json"
  props :: json

text \<open>
  \<open>L.circleMarker\<close> and \<open>markers.addLayers\<close> belong to the mapping library, and both
  can throw. What the library does is a parameter of the model: \<open>accepts\<close> says for
  which positions the constructor returns, \<open>adds\<close> for which batches \<open>addLayers\<close>
  returns. One fact about the library is built in: for a position of two numbers the
  constructor returns. For every other position (a missing coordinate, a string, an
  object, ...) the parameter decides; the library throws \<open>Invalid LatLng object\<close> for
  most of them, and for some it builds a marker without a position, on which
  \<open>addLayers\<close> throws later. Whether a call returns is taken to depend on its argument
  only.
\<close>

record library =
  accepts :: "json \<times> json \<Rightarrow> bool"
  adds :: "marker list \<Rightarrow> bool"

fun constructs :: "library \<Rightarrow> json \<times> json \<Rightarrow> bool" where
  "constructs lib (JNum lat, JNum lng) = True"
| "constructs lib position = accepts lib position"

text \<open>
  Iterating a string gives its code points. In UTF-8 a code point is a byte that is
  not a continuation byte, followed by continuation bytes (\<open>10xxxxxx\<close>).
\<close>

definition continuation :: "char \<Rightarrow> bool" where
  "continuation c = ((of_char c :: nat) div 64 = 2)"

fun code_points :: "string \<Rightarrow> string list" where
  "code_points [] = []"
| "code_points (c # cs) =
     (case code_points cs of
        [] \<Rightarrow> [c] # []
      | [] # ps \<Rightarrow> [c] # ps
      | (b # bs) # ps \<Rightarrow> if continuation b then (c # b # bs) # ps else [c] # (b # bs) # ps)"

text \<open>
  \<open>const [lng, lat] = coordinates\<close>: an array gives its first two elements
  (\<open>undefined\<close> where it is shorter), a string its first two code points; any other
  truthy value is not iterable and the destructuring raises a TypeError.
\<close>

fun destructure2 :: "json \<Rightarrow> error + json \<times> json" where
  "destructure2 (JArr xs) = Inr (elem_at xs 0, elem_at xs 1)"
| "destructure2 (JStr s) =
     Inr (elem_at (map JStr (code_points s)) 0, elem_at (map JStr (code_points s)) 1)"
| "destructure2 v = Inl TypeError"

text \<open>The guard of line 113.\<close>

definition has_coordinates :: "json \<Rightarrow> bool" where
  "has_coordinates feature =
     truthy (and_js (get feature ''geometry'') (get (get feature ''geometry'') ''coordinates''))"

text \<open>
  One pass of the loop body up to \<open>districtMarkers.push(marker)\<close>: \<open>Inr (Some m)\<close> when a
  marker is pushed, \<open>Inr None\<close> when the guard skips the feature, \<open>Inl e\<close> when the body
  throws: at \<open>feature.geometry\<close>, at the destructuring, or in the constructor.
\<close>

definition circleMarker_of :: "library \<Rightarrow> json \<Rightarrow> error + marker option" where
  "circleMarker_of lib feature =
     (if feature = JUndefined \<or> feature = JNull then Inl TypeError
      else if has_coordinates feature then
        (case destructure2 (get (get feature ''geometry'') ''coordinates'') of
           Inl e \<Rightarrow> Inl e
         | Inr (lng, lat) \<Rightarrow>
             if constructs lib (lat, lng)
             then Inr (Some \<lparr> latlng = (lat, lng),
                              props = or_js (get feature ''properties'') (JObj []) \<rparr>)
             else Inl LibraryError)
      else Inr None)"


section \<open>The chunked ingestion loop (lines 107--169)\<close>

text \<open>What the program does to the world outside \<open>districtState\<close>, in the order it does it.\<close>

datatype effect =
    Fetch string               \<comment> \<open>\<open>fetch(url)\<close>\<close>
  | AddLayers "marker list"    \<comment> \<open>\<open>markers.addLayers(batch)\<close>, which returned\<close>
  | AddLayersThrew "marker list"  \<comment> \<open>\<open>markers.addLayers(batch)\<close>, which threw\<close>
  | YieldToMain                \<comment> \<open>\<open>await yieldToMain()\<close>\<close>
  | Progress nat nat           \<comment> \<open>\<open>loadingProgress.textContent = `Distritos: loaded / total ...`\<close>\<close>

definition chunkSize :: nat where
  "chunkSize = 500"

text \<open>
  \<open>ingest lib i features districtMarkers\<close> runs the \<open>for\<close> loop from index \<open>i\<close> on,
  where \<open>features\<close> are the elements from \<open>i\<close> on and \<open>districtMarkers\<close> is the buffer.
  It returns the effects of the loop and how it ends: \<open>Inr buffer\<close> at the end of the
  array, \<open>Inl e\<close> when an iteration throws, in its body or in its flush.
\<close>

fun ingest ::
    "library \<Rightarrow> nat \<Rightarrow> json list \<Rightarrow> marker list \<Rightarrow> effect list \<times> (error + marker list)" where
  "ingest lib i [] districtMarkers = ([], Inr districtMarkers)"
| "ingest lib i (feature # rest) districtMarkers =
     (case circleMarker_of lib feature of
        Inl e \<Rightarrow> ([], Inl e)
      | Inr m \<Rightarrow>
          (let pushed = (case m of Some mk \<Rightarrow> districtMarkers @ [mk] | None \<Rightarrow> districtMarkers)
           in if i > 0 \<and> i mod chunkSize = 0
              then (if adds lib pushed
                    then (case ingest lib (Suc i) rest [] of
                            (es, r) \<Rightarrow> (AddLayers pushed # YieldToMain # es, r))
                    else ([AddLayersThrew pushed], Inl LibraryError))
              else ingest lib (Suc i) rest pushed))"


section \<open>Attribute resolution in the click handler (lines 127--133)\<close>

text \<open>
  Template literals turn a value into text with ToString. How a number prints is the
  engine's business and is taken as the parameter \<open>fmt\<close>. An array prints its elements
  separated by commas, \<open>null\<close> and \<open>undefined\<close> elements as nothing. An object prints
  as \<open>[object Object]\<close> through the inherited \<open>toString\<close>; an object with a member of
  its own named \<open>toString\<close> hides that method behind a value that cannot be called,
  and the conversion raises a TypeError.
\<close>

fun collect :: "(error + 'a) list \<Rightarrow> error + 'a list" where
  "collect [] = Inr []"
| "collect (Inl e # rs) = Inl e"
| "collect (Inr x # rs) = (case collect rs of Inl e \<Rightarrow> Inl e | Inr xs \<Rightarrow> Inr (x # xs))"

fun join_comma :: "string list \<Rightarrow> string" where
  "join_comma [] = []"
| "join_comma [s] = s"
| "join_comma (s # t # ss) = s @ '','' @ join_comma (t # ss)"

fun js_string :: "(real \<Rightarrow> string) \<Rightarrow> json \<Rightarrow> error + string" where
  "js_string fmt JUndefined = Inr ''undefined''"
| "js_string fmt JNull = Inr ''null''"
| "js_string fmt (JBool b) = Inr (if b then ''true'' else ''false'')"
| "js_string fmt (JNum n) = Inr (fmt n)"
| "js_string fmt (JStr s) = Inr s"
| "js_string fmt (JArr xs) =
     (case collect (map (\<lambda>x. if x = JUndefined \<or> x = JNull then Inr [] else js_string fmt x) xs) of
        Inl e \<Rightarrow> Inl e
      | Inr ss \<Rightarrow> Inr (join_comma ss))"
| "js_string fmt (JObj kvs) =
     (if map_of kvs ''toString'' = None then Inr ''[object Object]'' else Inl TypeError)"

text \<open>\<open>`${v} cm`\<close>: the value printed, then the unit.\<close>

definition with_unit :: "(real \<Rightarrow> string) \<Rightarrow> json \<Rightarrow> string \<Rightarrow> error + string" where
  "with_unit fmt v unit = (case js_string fmt v of Inl e \<Rightarrow> Inl e | Inr t \<Rightarrow> Inr (t @ unit))"

text \<open>The key \<open>Nombre cient\<acute>ifico\<close>, its accented letter as the two bytes of UTF-8.\<close>

definition nombre_cientifico :: string where
  "nombre_cientifico = ''Nombre cient'' @ [CHR 0xC3, CHR 0xAD] @ ''fico''"

record tree_info =
  species :: json
  commonName :: json
  diameter :: string
  height :: string
  district :: json
  neighborhood :: json

text \<open>
  The six \<open>const\<close> declarations at the head of the handler, in their order, on the
  attribute bag the marker closed over: the six values, or the exception that a
  template literal raises, after which the handler does nothing more. \<open>||\<close> binds
  tighter than \<open>? :\<close>, so the test of \<open>diameter\<close> and \<open>height\<close> is the whole
  disjunction. How the handler then writes the six values into the popup (lines
  135--151) is not part of this.
\<close>

definition resolve :: "(real \<Rightarrow> string) \<Rightarrow> json \<Rightarrow> error + tree_info" where
  "resolve fmt p =
     (case (if truthy (or_js (get p ''d'') (get p ''diameter''))
            then with_unit fmt (or_js (get p ''d'') (get p ''diameter'')) '' cm''
            else Inr ''N/A'') of
        Inl e \<Rightarrow> Inl e
      | Inr diameter_text \<Rightarrow>
          (case (if truthy (or_js (get p ''h'') (get p ''height''))
                 then with_unit fmt (or_js (get p ''h'') (get p ''height'')) '' m''
                 else Inr ''N/A'') of
             Inl e \<Rightarrow> Inl e
           | Inr height_text \<Rightarrow>
               Inr \<lparr> species = or_js (or_js (or_js (get p ''sn'') (get p ''species''))
                                             (get p nombre_cientifico))
                                      (JStr ''Especie desconocida''),
                     commonName = or_js (or_js (or_js (get p ''cn'') (get p ''common_name''))
                                                (get p ''CODIGO_ESP''))
                                         (JStr []),
                     diameter = diameter_text,
                     height = height_text,
                     district = or_js (or_js (get p ''dt'') (get p ''NBRE_DTO'')) (JStr []),
                     neighborhood = or_js (or_js (get p ''nb'') (get p ''NBRE_BARRI'')) (JStr []) \<rparr>))"


section \<open>The load state and the network\<close>

record district_info =
  code :: string
  name :: string
  filename :: string

record catalog =
  districts :: "district_info list"
  total_districts :: nat
  total_trees :: nat

text \<open>
  \<open>districtState\<close>, together with the log of what the program has done to the network,
  the clustering layer, the event loop and the progress text. \<open>loadedDistricts\<close> is a
  JavaScript \<open>Set\<close>: its elements in insertion order, without repetition.
\<close>

record load_state =
  index :: "catalog option"
  loadedDistricts :: "string list"
  districtLayers :: "string \<rightharpoonup> bool"
  isLoading :: bool
  effects :: "effect list"

definition set_add :: "string \<Rightarrow> string list \<Rightarrow> string list" where
  "set_add c xs = (if c \<in> set xs then xs else xs @ [c])"

definition perform :: "effect list \<Rightarrow> load_state \<Rightarrow> load_state" where
  "perform es s = s\<lparr>effects := effects s @ es\<rparr>"

text \<open>
  What a shard request comes back with: the fetch rejects, or a response arrives with
  its status and its body. \<open>Collection features\<close> is a body that parses to an object
  whose \<open>features\<close> member is the array \<open>features\<close>, of arbitrary values.
  \<open>Unparsable\<close> is a body on which \<open>response.json()\<close> rejects; a body that parses to
  \<open>null\<close>, or to a value without \<open>features\<close>, throws at \<open>data.features.length\<close>
  before anything else happens and counts as \<open>Unparsable\<close>. Bodies whose \<open>features\<close>
  member is a string, a number or an array-like object are not considered. The network
  may answer differently each time: it is asked with the number of effects performed so
  far.
\<close>

datatype body = Unparsable | Collection "json list"

datatype fetch_result = Rejected | Response nat body

type_synonym network = "nat \<Rightarrow> string \<Rightarrow> fetch_result"

definition ok :: "nat \<Rightarrow> bool" where
  "ok status = (200 \<le> status \<and> status \<le> 299)"

definition url_of :: "district_info \<Rightarrow> string" where
  "url_of districtInfo = ''./data/districts/'' @ filename districtInfo"


section \<open>\<open>loadDistrict\<close> (lines 90--179)\<close>

definition mark_loaded :: "district_info \<Rightarrow> load_state \<Rightarrow> load_state" where
  "mark_loaded districtInfo s =
     s\<lparr>districtLayers := (districtLayers s)(code districtInfo \<mapsto> True),
       loadedDistricts := set_add (code districtInfo) (loadedDistricts s)\<rparr>"

text \<open>
  Lines 166--174, which a loop that ran to its end reaches with the buffer
  \<open>districtMarkers\<close>; a loop that threw skips them. The buffer is flushed if it is not
  empty, and only when that call has returned is the shard marked. The result is the
  state and the exception on the way to the \<open>catch\<close> clause, if any.
\<close>

definition after_loop ::
    "library \<Rightarrow> district_info \<Rightarrow> error + marker list \<Rightarrow> load_state \<Rightarrow> load_state \<times> error option" where
  "after_loop lib districtInfo out s =
     (case out of
        Inl e \<Rightarrow> (s, Some e)
      | Inr districtMarkers \<Rightarrow>
          if districtMarkers \<noteq> []
          then (if adds lib districtMarkers
                then (mark_loaded districtInfo (perform [AddLayers districtMarkers] s), None)
                else (perform [AddLayersThrew districtMarkers] s, Some LibraryError))
          else (mark_loaded districtInfo s, None))"

text \<open>
  The \<open>try\<close> block: the state in which it is left, and the exception that left it, if
  any. What was flushed to the layer before a throw stays there.
\<close>

definition try_block ::
    "library \<Rightarrow> network \<Rightarrow> district_info \<Rightarrow> load_state \<Rightarrow> load_state \<times> error option" where
  "try_block lib net districtInfo s =
     (let s1 = perform [Fetch (url_of districtInfo)] s
      in case net (length (effects s)) (url_of districtInfo) of
           Rejected \<Rightarrow> (s1, Some NetworkError)
         | Response status b \<Rightarrow>
             if \<not> ok status then (s1, Some (HttpError status))
             else (case b of
                     Unparsable \<Rightarrow> (s1, Some SyntaxError)
                   | Collection features \<Rightarrow>
                       (case ingest lib 0 features [] of
                          (es, out) \<Rightarrow> after_loop lib districtInfo out (perform es s1))))"

text \<open>
  The function: the early return of line 93, then the \<open>try\<close> block, whose exception the
  \<open>catch\<close> clause writes to the console and drops. The second component is the
  exception that leaves \<open>loadDistrict\<close>.
\<close>

definition loadDistrict_exn ::
    "library \<Rightarrow> network \<Rightarrow> district_info \<Rightarrow> load_state \<Rightarrow> load_state \<times> error option" where
  "loadDistrict_exn lib net districtInfo s =
     (if code districtInfo \<in> set (loadedDistricts s) then (s, None)
      else (case try_block lib net districtInfo s of
              (s', None) \<Rightarrow> (s', None)
            | (s', Some e) \<Rightarrow> (s', None)))"

definition loadDistrict :: "library \<Rightarrow> network \<Rightarrow> district_info \<Rightarrow> load_state \<Rightarrow> load_state" where
  "loadDistrict lib net districtInfo s = fst (loadDistrict_exn lib net districtInfo s)"


section \<open>\<open>getVisibleDistricts\<close> and \<open>loadVisibleDistricts\<close> (lines 181--218)\<close>

text \<open>
  \<open>bounds\<close> and \<open>zoom\<close> are what \<open>map.getBounds()\<close> and \<open>map.getZoom()\<close> return: the
  south-west and north-east corners of the view, and the zoom level.
\<close>

type_synonym bounds = "(real \<times> real) \<times> (real \<times> real)"

definition getVisibleDistricts :: "bounds \<Rightarrow> real \<Rightarrow> load_state \<Rightarrow> district_info list" where
  "getVisibleDistricts bounds zoom s =
     (case index s of
        None \<Rightarrow> []
      | Some idx \<Rightarrow> if zoom < 11 then districts idx else districts idx)"

text \<open>
  \<open>districtState.index.districts.length\<close>; the loop body that reads it runs only when
  the index is there.
\<close>

definition total_of :: "load_state \<Rightarrow> nat" where
  "total_of s = (case index s of None \<Rightarrow> 0 | Some idx \<Rightarrow> length (districts idx))"

text \<open>Lines 207--213: the progress text, then the yield between districts.\<close>

definition report :: "load_state \<Rightarrow> load_state" where
  "report s = perform [Progress (length (loadedDistricts s)) (total_of s), YieldToMain] s"

text \<open>
  The \<open>for\<close> loop of lines 201--215 over the rest of \<open>visibleDistricts\<close>. An exception
  that left \<open>loadDistrict\<close> would leave the loop, and the function, at once.
\<close>

fun load_loop ::
    "library \<Rightarrow> network \<Rightarrow> district_info list \<Rightarrow> load_state \<Rightarrow> load_state \<times> error option" where
  "load_loop lib net [] s = (s, None)"
| "load_loop lib net (d # rest) s =
     (if code d \<notin> set (loadedDistricts s)
      then (case loadDistrict_exn lib net d s of
              (s1, Some e) \<Rightarrow> (s1, Some e)
            | (s1, None) \<Rightarrow> load_loop lib net rest (report s1))
      else load_loop lib net rest s)"

definition loadVisibleDistricts_exn ::
    "library \<Rightarrow> network \<Rightarrow> bounds \<Rightarrow> real \<Rightarrow> load_state \<Rightarrow> load_state \<times> error option" where
  "loadVisibleDistricts_exn lib net bounds zoom s =
     (if isLoading s then (s, None)
      else (let s1 = s\<lparr>isLoading := True\<rparr>;
                visibleDistricts = getVisibleDistricts bounds zoom s1
            in case load_loop lib net visibleDistricts s1 of
                 (s2, Some e) \<Rightarrow> (s2, Some e)
               | (s2, None) \<Rightarrow> (s2\<lparr>isLoading := False\<rparr>, None)))"

definition loadVisibleDistricts ::
    "library \<Rightarrow> network \<Rightarrow> bounds \<Rightarrow> real \<Rightarrow> load_state \<Rightarrow> load_state" where
  "loadVisibleDistricts lib net bounds zoom s = fst (loadVisibleDistricts_exn lib net bounds zoom s)"


section \<open>The event loop: calls of \<open>loadVisibleDistricts\<close> that overlap\<close>

text \<open>
  The functions above run a load cycle from its call to its end. In the browser the
  cycle is an \<open>async\<close> function: at every \<open>await\<close> it is suspended and the event loop
  may run a \<open>moveend\<close>/\<open>zoomend\<close> handler, which calls \<open>loadVisibleDistricts\<close> again.
  A suspended call is a \<open>task\<close>: the place where it waits and what it still has to do.
\<close>

datatype task =
    AwaitFetch district_info "district_info list"
      \<comment> \<open>line 100, \<open>await fetch(...)\<close>; the second field is the rest of \<open>visibleDistricts\<close>\<close>
  | AwaitJson district_info "district_info list" body
      \<comment> \<open>line 105, \<open>await response.json()\<close> on the body that arrived\<close>
  | AwaitYield district_info "district_info list" "effect list" "error + marker list"
      \<comment> \<open>line 162, \<open>await yieldToMain()\<close>; what the loop does from there on and how it ends\<close>
  | AwaitNext "district_info list"
      \<comment> \<open>line 213, \<open>await yieldToMain()\<close> between districts\<close>

text \<open>The effects up to and including the next yield, and what follows it, if it is there.\<close>

fun until_yield :: "effect list \<Rightarrow> effect list \<times> effect list option" where
  "until_yield [] = ([], None)"
| "until_yield (YieldToMain # es) = ([YieldToMain], Some es)"
| "until_yield (e # es) = (case until_yield es of (now, later) \<Rightarrow> (e # now, later))"

text \<open>\<open>loadDistrict\<close> has returned, by its end or through its \<open>catch\<close> clause.\<close>

definition finish_district :: "district_info list \<Rightarrow> load_state \<Rightarrow> task option \<times> load_state" where
  "finish_district rest s = (Some (AwaitNext rest), report s)"

text \<open>The loop of \<open>loadDistrict\<close> runs until it yields or ends.\<close>

definition continue_ingest ::
    "library \<Rightarrow> district_info \<Rightarrow> district_info list \<Rightarrow> effect list \<Rightarrow> error + marker list
      \<Rightarrow> load_state \<Rightarrow> task option \<times> load_state" where
  "continue_ingest lib d rest es out s =
     (case until_yield es of
        (now, Some later) \<Rightarrow> (Some (AwaitYield d rest later out), perform now s)
      | (now, None) \<Rightarrow> finish_district rest (fst (after_loop lib d out (perform now s))))"

text \<open>
  The loop of \<open>loadVisibleDistricts\<close> from its head: it passes over resident districts
  and stops at the first \<open>await\<close>, or it ends and clears the flag.
\<close>

fun next_district :: "district_info list \<Rightarrow> load_state \<Rightarrow> task option \<times> load_state" where
  "next_district [] s = (None, s\<lparr>isLoading := False\<rparr>)"
| "next_district (d # rest) s =
     (if code d \<notin> set (loadedDistricts s)
      then (if code d \<in> set (loadedDistricts s) then finish_district rest s
            else (Some (AwaitFetch d rest), perform [Fetch (url_of d)] s))
      else next_district rest s)"

text \<open>A suspended call is resumed; \<open>r\<close> is what the network has delivered, where it waits for it.\<close>

fun resume ::
    "library \<Rightarrow> fetch_result \<Rightarrow> task \<Rightarrow> load_state \<Rightarrow> task option \<times> load_state" where
  "resume lib r (AwaitFetch d rest) s =
     (case r of
        Rejected \<Rightarrow> finish_district rest s
      | Response status b \<Rightarrow>
          if \<not> ok status then finish_district rest s else (Some (AwaitJson d rest b), s))"
| "resume lib r (AwaitJson d rest b) s =
     (case b of
        Unparsable \<Rightarrow> finish_district rest s
      | Collection features \<Rightarrow>
          (case ingest lib 0 features [] of (es, out) \<Rightarrow> continue_ingest lib d rest es out s))"
| "resume lib r (AwaitYield d rest es out) s = continue_ingest lib d rest es out s"
| "resume lib r (AwaitNext rest) s = next_district rest s"

record system =
  state :: load_state
  tasks :: "task list"

text \<open>A call of \<open>loadVisibleDistricts\<close>, up to its first \<open>await\<close> or its return.\<close>

definition invoke :: "bounds \<Rightarrow> real \<Rightarrow> system \<Rightarrow> system" where
  "invoke bounds zoom sys =
     (if isLoading (state sys) then sys
      else (let s1 = (state sys)\<lparr>isLoading := True\<rparr>
            in case next_district (getVisibleDistricts bounds zoom s1) s1 of
                 (None, s2) \<Rightarrow> sys\<lparr>state := s2\<rparr>
               | (Some t, s2) \<Rightarrow> sys\<lparr>state := s2, tasks := tasks sys @ [t]\<rparr>))"

datatype event =
    Call bounds real          \<comment> \<open>a handler, or \<open>initialize\<close>, calls \<open>loadVisibleDistricts()\<close>\<close>
  | Wake nat fetch_result     \<comment> \<open>the event loop resumes the suspended call at this position\<close>

fun fire :: "library \<Rightarrow> event \<Rightarrow> system \<Rightarrow> system" where
  "fire lib (Call bounds zoom) sys = invoke bounds zoom sys"
| "fire lib (Wake k r) sys =
     (if k < length (tasks sys)
      then (case resume lib r (tasks sys ! k) (state sys) of
              (None, s') \<Rightarrow> sys\<lparr>state := s', tasks := take k (tasks sys) @ drop (Suc k) (tasks sys)\<rparr>
            | (Some t, s') \<Rightarrow> sys\<lparr>state := s', tasks := (tasks sys)[k := t]\<rparr>)
      else sys)"

definition run :: "library \<Rightarrow> event list \<Rightarrow> system \<Rightarrow> system" where
  "run lib evs sys = foldl (\<lambda>sys ev. fire lib ev sys) sys evs"

text \<open>The page after \<open>loadDistrictIndex\<close>: nothing resident, nothing in progress.\<close>

definition initial :: "catalog option \<Rightarrow> system" where
  "initial idx =
     \<lparr> state = \<lparr> index = idx, loadedDistricts = [], districtLayers = Map.empty,
                 isLoading = False, effects = [] \<rparr>,
       tasks = [] \<rparr>"


text \<open>
  A cycle on its own: the suspended call is resumed again and again, with no other call
  in between, until it returns. The network answers the request the call waits for as
  it answers the functions above: by the position of the request in the log.
\<close>

definition answer :: "network \<Rightarrow> task \<Rightarrow> load_state \<Rightarrow> fetch_result" where
  "answer net t s =
     (case t of
        AwaitFetch d rest \<Rightarrow> net (length (effects s) - 1) (url_of d)
      | _ \<Rightarrow> Rejected)"

inductive completes ::
    "library \<Rightarrow> network \<Rightarrow> task \<Rightarrow> load_state \<Rightarrow> load_state \<Rightarrow> bool" where
  ends: "resume lib (answer net t s) t s = (None, s') \<Longrightarrow> completes lib net t s s'"
| goes_on: "resume lib (answer net t s) t s = (Some t', s1) \<Longrightarrow> completes lib net t' s1 s'
            \<Longrightarrow> completes lib net t s s'"

code_pred completes .


section \<open>Vocabulary of the properties\<close>

text \<open>
  The markers handed to the layer, the batches they came in, and the yields, in a log.
  A batch counts as handed over when \<open>addLayers\<close> has returned; how much of its batch
  a call that threw has added is the library's business.
\<close>

definition handed :: "effect list \<Rightarrow> marker list" where
  "handed es = concat (map (\<lambda>e. case e of AddLayers b \<Rightarrow> b | _ \<Rightarrow> []) es)"

definition batches :: "effect list \<Rightarrow> marker list list" where
  "batches es = concat (map (\<lambda>e. case e of AddLayers b \<Rightarrow> [b] | _ \<Rightarrow> []) es)"

definition yields :: "effect list \<Rightarrow> nat" where
  "yields es = length (filter (\<lambda>e. e = YieldToMain) es)"

definition fetches :: "effect list \<Rightarrow> string list" where
  "fetches es = concat (map (\<lambda>e. case e of Fetch u \<Rightarrow> [u] | _ \<Rightarrow> []) es)"

text \<open>What one feature contributes, and what a collection contributes, in order.\<close>

definition pushed_by :: "library \<Rightarrow> json \<Rightarrow> marker list" where
  "pushed_by lib feature = (case circleMarker_of lib feature of Inr (Some m) \<Rightarrow> [m] | _ \<Rightarrow> [])"

definition points :: "library \<Rightarrow> json list \<Rightarrow> marker list" where
  "points lib features = concat (map (pushed_by lib) features)"

text \<open>The loop body throws on this feature.\<close>

definition throws :: "library \<Rightarrow> json \<Rightarrow> bool" where
  "throws lib feature = (case circleMarker_of lib feature of Inl e \<Rightarrow> True | Inr m \<Rightarrow> False)"

text \<open>
  The loop over a collection runs to its end: no iteration throws, in its body or in
  its flush. And the ingestion of a collection does not throw: the loop runs to its end
  and the flush of the remainder, if there is one, returns.
\<close>

definition runs_through :: "library \<Rightarrow> json list \<Rightarrow> bool" where
  "runs_through lib features =
     (case snd (ingest lib 0 features []) of Inl e \<Rightarrow> False | Inr remainder \<Rightarrow> True)"

definition ingests :: "library \<Rightarrow> json list \<Rightarrow> bool" where
  "ingests lib features =
     (case snd (ingest lib 0 features []) of
        Inl e \<Rightarrow> False
      | Inr remainder \<Rightarrow> remainder = [] \<or> adds lib remainder)"

text \<open>The position that the marker of a feature is asked for.\<close>

definition position_of :: "json \<Rightarrow> json \<times> json" where
  "position_of feature =
     (case destructure2 (get (get feature ''geometry'') ''coordinates'') of
        Inr (lng, lat) \<Rightarrow> (lat, lng)
      | Inl e \<Rightarrow> (JUndefined, JUndefined))"

text \<open>The number of iterations from index \<open>i\<close> up to and including the next flush.\<close>

definition to_next :: "nat \<Rightarrow> nat" where
  "to_next i = (if i = 0 then Suc chunkSize else chunkSize - (i - 1) mod chunkSize)"

text \<open>A request that does not deliver a collection, and one that is ingested to the end.\<close>

fun failed :: "fetch_result \<Rightarrow> bool" where
  "failed Rejected = True"
| "failed (Response status Unparsable) = True"
| "failed (Response status (Collection features)) = (\<not> ok status)"

fun succeeds :: "library \<Rightarrow> fetch_result \<Rightarrow> bool" where
  "succeeds lib (Response status (Collection features)) = (ok status \<and> ingests lib features)"
| "succeeds lib r = False"

text \<open>
  The specification's reading of a valid feature: a geometry whose coordinates are a
  pair. And its reading of attribute resolution: the first candidate that is present and
  not empty.
\<close>

definition spec_coordinate_pair :: "json \<Rightarrow> bool" where
  "spec_coordinate_pair feature =
     (case get (get feature ''geometry'') ''coordinates'' of
        JArr [x, y] \<Rightarrow> True
      | _ \<Rightarrow> False)"

definition spec_present :: "json \<Rightarrow> bool" where
  "spec_present v = (v \<noteq> JUndefined \<and> v \<noteq> JNull \<and> v \<noteq> JStr [])"

text \<open>The first truthy candidate, if there is one.\<close>

definition first_truthy :: "json list \<Rightarrow> json option" where
  "first_truthy vs = find truthy vs"

text \<open>
  The values that a template literal can print: all but an object with a member of its
  own named \<open>toString\<close>, alone or inside an array.
\<close>

fun printable :: "json \<Rightarrow> bool" where
  "printable (JArr xs) = list_all printable xs"
| "printable (JObj kvs) = (map_of kvs ''toString'' = None)"
| "printable v = True"


text \<open>
  At most one call of \<open>loadVisibleDistricts\<close> is suspended, and the flag is set exactly
  when one is.
\<close>

definition one_cycle :: "system \<Rightarrow> bool" where
  "one_cycle sys =
     (case tasks sys of
        [] \<Rightarrow> \<not> isLoading (state sys)
      | [t] \<Rightarrow> isLoading (state sys)
      | _ \<Rightarrow> False)"

text \<open>The shard that a suspended call is in the middle of loading, if it is in one.\<close>

fun ingesting :: "task \<Rightarrow> district_info option" where
  "ingesting (AwaitFetch d rest) = Some d"
| "ingesting (AwaitJson d rest b) = Some d"
| "ingesting (AwaitYield d rest es out) = Some d"
| "ingesting (AwaitNext rest) = None"

text \<open>
  The invariant of the event loop: one cycle at most, and a shard in the middle of
  being loaded is not resident.
\<close>

definition pending :: "system \<Rightarrow> bool" where
  "pending sys =
     (one_cycle sys \<and>
      list_all (\<lambda>t. case ingesting t of
                       None \<Rightarrow> True
                     | Some d \<Rightarrow> code d \<notin> set (loadedDistricts (state sys)))
        (tasks sys))"

text \<open>What \<open>const [lng, lat] = v\<close> accepts.\<close>

fun iterable :: "json \<Rightarrow> bool" where
  "iterable (JArr xs) = True"
| "iterable (JStr s) = True"
| "iterable v = False"

text \<open>The part of a log that a run has added to the log it started with.\<close>

definition new_effects :: "load_state \<Rightarrow> load_state \<Rightarrow> effect list" where
  "new_effects s s' = drop (length (effects s)) (effects s')"


section \<open>Sample data\<close>

definition tree :: json where
  "tree = JObj [(''geometry'', JObj [(''coordinates'', JArr [JNum (-3.70), JNum 40.41])])]"

definition tree_with_altitude :: json where
  "tree_with_altitude =
     JObj [(''geometry'', JObj [(''coordinates'', JArr [JNum (-3.70), JNum 40.41, JNum 650])])]"

definition scalar_coordinates :: json where
  "scalar_coordinates = JObj [(''geometry'', JObj [(''coordinates'', JNum 7)])]"

definition no_geometry :: json where
  "no_geometry = JObj [(''properties'', JObj [(''sn'', JStr ''Platanus'')])]"

definition empty_coordinates :: json where
  "empty_coordinates = JObj [(''geometry'', JObj [(''coordinates'', JArr [])])]"

definition latitude_object :: json where
  "latitude_object =
     JObj [(''geometry'', JObj [(''coordinates'', JArr [JNum (-3.70), JObj []])])]"

text \<open>
  A library for the examples. A position whose first component is \<open>null\<close>, an array or
  an object gives a marker without a position, and \<open>addLayers\<close> throws on a batch that
  holds such a marker; every other position that is not two numbers is refused by the
  constructor.
\<close>

fun object_typed :: "json \<Rightarrow> bool" where
  "object_typed JNull = True"
| "object_typed (JArr xs) = True"
| "object_typed (JObj kvs) = True"
| "object_typed v = False"

fun numeric :: "json \<Rightarrow> bool" where
  "numeric (JNum n) = True"
| "numeric v = False"

definition positioned :: "marker \<Rightarrow> bool" where
  "positioned m = (numeric (fst (latlng m)) \<and> numeric (snd (latlng m)))"

definition sample_lib :: library where
  "sample_lib = \<lparr> accepts = (\<lambda>position. object_typed (fst position)), adds = list_all positioned \<rparr>"

definition shard1 :: district_info where
  "shard1 = \<lparr> code = ''01'', name = ''Centro'', filename = ''district_01.json'' \<rparr>"

definition shard2 :: district_info where
  "shard2 = \<lparr> code = ''02'', name = ''Arganzuela'', filename = ''district_02.json'' \<rparr>"

definition two_shards :: catalog where
  "two_shards = \<lparr> districts = [shard1, shard2], total_districts = 2, total_trees = 8 \<rparr>"

definition madrid :: bounds where
  "madrid = ((40.31, -3.89), (40.64, -3.52))"

text \<open>
  Attribute bags: long forms only; nothing at all; a height of zero; a short-form
  diameter of zero beside a long-form one; a diameter that is an object with a member
  \<open>toString\<close>. And a stand-in for the engine's printing of the two numbers that occur
  in them.
\<close>

definition long_forms :: json where
  "long_forms = JObj [(''species'', JStr ''Quercus ilex''), (''diameter'', JNum 12),
                      (''NBRE_DTO'', JStr ''CENTRO'')]"

definition no_attributes :: json where
  "no_attributes = JObj []"

definition zero_height :: json where
  "zero_height = JObj [(''sn'', JStr ''Quercus ilex''), (''h'', JNum 0)]"

definition zero_before_long :: json where
  "zero_before_long = JObj [(''d'', JNum 0), (''diameter'', JNum 12)]"

definition own_toString :: json where
  "own_toString = JObj [(''sn'', JStr ''Quercus ilex''), (''d'', JObj [(''toString'', JNum 1)])]"

definition sample_fmt :: "real \<Rightarrow> string" where
  "sample_fmt r = (if r = 12 then ''12'' else if r = 0 then ''0'' else ''?'')"

text \<open>A network that gives the same answer to every request, and one that serves files.\<close>

definition always :: "fetch_result \<Rightarrow> network" where
  "always r t u = r"

definition serve :: "(string \<times> fetch_result) list \<Rightarrow> network" where
  "serve files t u = (case map_of files u of Some r \<Rightarrow> r | None \<Rightarrow> Rejected)"

text \<open>Two shards of three and five trees; and the first one answering with status 500.\<close>

definition two_files :: network where
  "two_files =
     serve [(url_of shard1, Response 200 (Collection (replicate 3 tree))),
            (url_of shard2, Response 200 (Collection (replicate 5 tree)))]"

definition shard1_down :: network where
  "shard1_down =
     serve [(url_of shard1, Response 500 Unparsable),
            (url_of shard2, Response 200 (Collection (replicate 5 tree)))]"

definition fresh :: "catalog option \<Rightarrow> load_state" where
  "fresh idx = state (initial idx)"


section \<open>The ingestion loop: what it hands over, how often it yields, how it batches\<close>

lemma handed_simps [simp]:
  "handed [] = []"
  "handed (AddLayers b # es) = b @ handed es"
  "handed (YieldToMain # es) = handed es"
  "handed (Fetch u # es) = handed es"
  "handed (Progress a t # es) = handed es"
  "handed (AddLayersThrew b # es) = handed es"
  "handed (es @ es') = handed es @ handed es'"
  by (simp_all add: handed_def)

lemma yields_simps [simp]:
  "yields [] = 0"
  "yields (AddLayers b # es) = yields es"
  "yields (YieldToMain # es) = Suc (yields es)"
  "yields (Fetch u # es) = yields es"
  "yields (Progress a t # es) = yields es"
  "yields (AddLayersThrew b # es) = yields es"
  "yields (es @ es') = yields es + yields es'"
  by (simp_all add: yields_def)



lemma ingest_Cons_Inl [simp]:
  "circleMarker_of lib f = Inl e \<Longrightarrow> ingest lib i (f # fs) buf = ([], Inl e)"
  by simp

lemma ingest_Cons_flush:
  "circleMarker_of lib f = Inr m \<Longrightarrow> i > 0 \<Longrightarrow> i mod chunkSize = 0 \<Longrightarrow>
   adds lib (buf @ (case m of Some mk \<Rightarrow> [mk] | None \<Rightarrow> [])) \<Longrightarrow>
   ingest lib i (f # fs) buf =
     (AddLayers (buf @ (case m of Some mk \<Rightarrow> [mk] | None \<Rightarrow> [])) # YieldToMain # fst (ingest lib (Suc i) fs []),
      snd (ingest lib (Suc i) fs []))"
  by (cases m) (auto simp: Let_def case_prod_beta)

lemma ingest_Cons_refused:
  "circleMarker_of lib f = Inr m \<Longrightarrow> i > 0 \<Longrightarrow> i mod chunkSize = 0 \<Longrightarrow>
   \<not> adds lib (buf @ (case m of Some mk \<Rightarrow> [mk] | None \<Rightarrow> [])) \<Longrightarrow>
   ingest lib i (f # fs) buf =
     ([AddLayersThrew (buf @ (case m of Some mk \<Rightarrow> [mk] | None \<Rightarrow> []))], Inl LibraryError)"
  by (cases m) (auto simp: Let_def)

lemma ingest_Cons_keep:
  "circleMarker_of lib f = Inr m \<Longrightarrow> \<not> (i > 0 \<and> i mod chunkSize = 0) \<Longrightarrow>
   ingest lib i (f # fs) buf = ingest lib (Suc i) fs (buf @ (case m of Some mk \<Rightarrow> [mk] | None \<Rightarrow> []))"
  by (cases m) (auto simp: Let_def)


declare ingest.simps(2) [simp del]

lemma throws_iff: "throws lib f \<longleftrightarrow> (\<exists>e. circleMarker_of lib f = Inl e)"
  by (cases "circleMarker_of lib f") (simp_all add: throws_def)

lemma not_throws_iff: "\<not> throws lib f \<longleftrightarrow> (\<exists>m. circleMarker_of lib f = Inr m)"
  by (cases "circleMarker_of lib f") (simp_all add: throws_def)

text \<open>An iteration of a loop that runs to its end: it flushes, or it keeps the buffer.\<close>

lemma ingest_Cons_runs:
  assumes "snd (ingest lib i (f # fs) buf) = Inr rem"
  obtains (flush) m where "circleMarker_of lib f = Inr m" "i > 0" "i mod chunkSize = 0"
      "adds lib (buf @ (case m of Some mk \<Rightarrow> [mk] | None \<Rightarrow> []))"
      "snd (ingest lib (Suc i) fs []) = Inr rem"
  | (keep) m where "circleMarker_of lib f = Inr m" "\<not> (i > 0 \<and> i mod chunkSize = 0)"
      "snd (ingest lib (Suc i) fs (buf @ (case m of Some mk \<Rightarrow> [mk] | None \<Rightarrow> []))) = Inr rem"
proof (cases "circleMarker_of lib f")
  case (Inl e)
  with assms show ?thesis by simp
next
  case (Inr m)
  show ?thesis
  proof (cases "i > 0 \<and> i mod chunkSize = 0")
    case False
    with Inr assms show ?thesis by (intro keep [of m]) (simp_all add: ingest_Cons_keep)
  next
    case True
    show ?thesis
    proof (cases "adds lib (buf @ (case m of Some mk \<Rightarrow> [mk] | None \<Rightarrow> []))")
      case False
      with True Inr assms show ?thesis by (simp add: ingest_Cons_refused)
    next
      case a: True
      with True Inr assms show ?thesis by (intro flush [of m]) (simp_all add: ingest_Cons_flush)
    qed
  qed
qed

lemma ingest_no_throw:
  "snd (ingest lib i fs buf) = Inr rem \<Longrightarrow> \<forall>f \<in> set fs. \<not> throws lib f"
proof (induction fs arbitrary: i buf)
  case Nil
  show ?case by simp
next
  case (Cons f fs)
  from Cons.prems show ?case
  proof (cases rule: ingest_Cons_runs)
    case (flush m)
    with Cons.IH [of "Suc i" "[]"] show ?thesis by (simp add: not_throws_iff)
  next
    case (keep m)
    with Cons.IH [OF keep(3)] show ?thesis by (simp add: not_throws_iff)
  qed
qed

lemma points_Cons: "points lib (f # fs) = pushed_by lib f @ points lib fs"
  by (simp add: points_def)

lemma pushed_by_Inr: "circleMarker_of lib f = Inr m \<Longrightarrow> pushed_by lib f = (case m of Some mk \<Rightarrow> [mk] | None \<Rightarrow> [])"
  by (simp add: pushed_by_def split: option.splits)

lemma ingest_handed:
  "snd (ingest lib i fs buf) = Inr rem \<Longrightarrow> handed (fst (ingest lib i fs buf)) @ rem = buf @ points lib fs"
proof (induction fs arbitrary: i buf)
  case Nil
  then show ?case by (simp add: points_def)
next
  case (Cons f fs)
  from Cons.prems show ?case
  proof (cases rule: ingest_Cons_runs)
    case (flush m)
    from Cons.IH [OF flush(5)] show ?thesis using flush
      by (simp add: ingest_Cons_flush points_Cons pushed_by_Inr)
  next
    case (keep m)
    from Cons.IH [OF keep(3)] show ?thesis using keep
      by (simp add: ingest_Cons_keep points_Cons pushed_by_Inr)
  qed
qed

text \<open>
  A loop runs to its end when no feature makes the body throw and the library takes
  every batch made of the markers at hand.
\<close>

lemma ingest_runs:
  assumes "\<forall>f \<in> set fs. \<not> throws lib f" and "\<forall>b. set b \<subseteq> A \<longrightarrow> adds lib b"
    and "set buf \<subseteq> A" and "set (points lib fs) \<subseteq> A"
  shows "\<exists>rem. snd (ingest lib i fs buf) = Inr rem"
  using assms(1,3,4)
proof (induction fs arbitrary: i buf)
  case Nil
  show ?case by simp
next
  case (Cons f fs)
  from Cons.prems(1) obtain m where m: "circleMarker_of lib f = Inr m"
    by (auto simp: not_throws_iff)
  let ?buf = "buf @ (case m of Some mk \<Rightarrow> [mk] | None \<Rightarrow> [])"
  from Cons.prems(1) have rest: "\<forall>f \<in> set fs. \<not> throws lib f" by simp
  from Cons.prems(3) have pts: "set (points lib fs) \<subseteq> A" and one: "set (pushed_by lib f) \<subseteq> A"
    by (simp_all add: points_Cons)
  from one Cons.prems(2) m have buf: "set ?buf \<subseteq> A" by (simp add: pushed_by_Inr)
  show ?case
  proof (cases "i > 0 \<and> i mod chunkSize = 0")
    case True
    from buf assms(2) have "adds lib ?buf" by blast
    with True m Cons.IH [OF rest _ pts, of "[]" "Suc i"] show ?thesis
      by (simp add: ingest_Cons_flush)
  next
    case False
    with m Cons.IH [OF rest buf pts, of "Suc i"] show ?thesis
      by (simp add: ingest_Cons_keep)
  qed
qed


lemma pred_div_flush:
  fixes c :: nat
  assumes "i > 0" "i mod c = 0"
  shows "i div c = Suc ((i - 1) div c)"
proof -
  from assms(1) obtain j where j: "i = Suc j" by (cases i) auto
  with assms(2) show ?thesis by (simp add: div_Suc)
qed

lemma pred_div_keep:
  fixes c :: nat
  assumes "\<not> (i > 0 \<and> i mod c = 0)"
  shows "i div c = (i - 1) div c"
proof (cases i)
  case 0
  then show ?thesis by simp
next
  case (Suc j)
  with assms show ?thesis by (simp add: div_Suc)
qed

lemma count_flush:
  fixes c :: nat
  assumes "i > 0" "i mod c = 0"
  shows "Suc ((Suc i + n - 1) div c - (Suc i - 1) div c) = (i + Suc n - 1) div c - (i - 1) div c"
proof -
  have "i div c \<le> (i + n) div c" by (rule div_le_mono) simp
  then show ?thesis using pred_div_flush [OF assms] by simp
qed

lemma count_keep:
  fixes c :: nat
  assumes "\<not> (i > 0 \<and> i mod c = 0)"
  shows "(Suc i + n - 1) div c - (Suc i - 1) div c = (i + Suc n - 1) div c - (i - 1) div c"
  using pred_div_keep [OF assms] by simp

lemma ingest_yields:
  "snd (ingest lib i fs buf) = Inr rem \<Longrightarrow>
   yields (fst (ingest lib i fs buf)) = (i + length fs - 1) div chunkSize - (i - 1) div chunkSize"
proof (induction fs arbitrary: i buf)
  case Nil
  then show ?case by simp
next
  case (Cons f fs)
  from Cons.prems show ?case
  proof (cases rule: ingest_Cons_runs)
    case (flush m)
    note IH = Cons.IH [OF flush(5)]
    have "yields (fst (ingest lib i (f # fs) buf)) = Suc (yields (fst (ingest lib (Suc i) fs [])))"
      using flush by (simp add: ingest_Cons_flush)
    also have "\<dots> = Suc ((Suc i + length fs - 1) div chunkSize - (Suc i - 1) div chunkSize)"
      by (simp only: IH)
    also have "\<dots> = (i + Suc (length fs) - 1) div chunkSize - (i - 1) div chunkSize"
      using flush(2,3) by (intro count_flush) simp_all
    finally show ?thesis by simp
  next
    case (keep m)
    note IH = Cons.IH [OF keep(3)]
    have "yields (fst (ingest lib i (f # fs) buf)) =
        yields (fst (ingest lib (Suc i) fs (buf @ (case m of Some mk \<Rightarrow> [mk] | None \<Rightarrow> []))))"
      using keep by (simp add: ingest_Cons_keep)
    also have "\<dots> = (Suc i + length fs - 1) div chunkSize - (Suc i - 1) div chunkSize"
      by (simp only: IH)
    also have "\<dots> = (i + Suc (length fs) - 1) div chunkSize - (i - 1) div chunkSize"
      using keep(2) by (intro count_keep) simp_all
    finally show ?thesis by simp
  qed
qed


lemma chunkSize_pos [simp]: "0 < chunkSize"
  by (simp add: chunkSize_def)

lemma to_next_flush: "i > 0 \<Longrightarrow> i mod chunkSize = 0 \<Longrightarrow> to_next i = 1"
proof -
  assume a: "i > 0" "i mod chunkSize = 0"
  then obtain j where j: "i = Suc j" by (cases i) auto
  with a have "Suc (j mod chunkSize) = chunkSize"
    by (simp add: mod_Suc split: if_splits)
  then show ?thesis using j by (simp add: to_next_def)
qed

lemma to_next_after_flush: "i mod chunkSize = 0 \<Longrightarrow> to_next (Suc i) = chunkSize"
  by (simp add: to_next_def)

lemma to_next_keep: "\<not> (i > 0 \<and> i mod chunkSize = 0) \<Longrightarrow> to_next i = Suc (to_next (Suc i))"
proof (cases i)
  case 0
  then show ?thesis by (simp add: to_next_def)
next
  case (Suc j)
  assume "\<not> (i > 0 \<and> i mod chunkSize = 0)"
  with Suc have "Suc j mod chunkSize \<noteq> 0" by simp
  then have "Suc j mod chunkSize = Suc (j mod chunkSize)"
    by (simp add: mod_Suc split: if_splits)
  moreover have "Suc j mod chunkSize < chunkSize" by simp
  ultimately show ?thesis using Suc by (simp add: to_next_def)
qed

lemma to_next_pos: "0 < to_next i"
proof (cases "i = 0")
  case True then show ?thesis by (simp add: to_next_def)
next
  case False
  have "(i - 1) mod chunkSize < chunkSize" by simp
  then show ?thesis using False by (simp add: to_next_def)
qed

lemma to_next_period: "to_next i = chunkSize \<Longrightarrow> to_next (i + chunkSize) = chunkSize"
proof -
  assume a: "to_next i = chunkSize"
  then have "i \<noteq> 0" by (cases "i = 0") (simp_all add: to_next_def)
  then have "i + chunkSize - 1 = (i - 1) + chunkSize" by simp
  then have "(i + chunkSize - 1) mod chunkSize = (i - 1) mod chunkSize" by simp
  then show ?thesis using a \<open>i \<noteq> 0\<close> by (simp add: to_next_def)
qed

lemma ingest_window:
  "snd (ingest lib i fs buf) = Inr rem \<Longrightarrow>
   ingest lib i fs buf =
     (if length fs < to_next i then ([], Inr (buf @ points lib fs))
      else (AddLayers (buf @ points lib (take (to_next i) fs)) # YieldToMain #
              fst (ingest lib (i + to_next i) (drop (to_next i) fs) []),
            snd (ingest lib (i + to_next i) (drop (to_next i) fs) [])))"
proof (induction fs arbitrary: i buf)
  case Nil
  then show ?case using to_next_pos [of i] by (simp add: points_def)
next
  case (Cons f fs)
  from Cons.prems show ?case
  proof (cases rule: ingest_Cons_runs)
    case (flush m)
    then have "to_next i = 1" by (simp add: to_next_flush)
    then show ?thesis using flush
      by (simp add: ingest_Cons_flush points_Cons pushed_by_Inr points_def)
  next
    case (keep m)
    then have t: "to_next i = Suc (to_next (Suc i))" by (intro to_next_keep)
    show ?thesis using keep
      by (simp add: ingest_Cons_keep Cons.IH [OF keep(3)] t points_Cons pushed_by_Inr)
  qed
qed


lemma batches_simps [simp]:
  "batches [] = []"
  "batches (AddLayers b # es) = b # batches es"
  "batches (YieldToMain # es) = batches es"
  "batches (Fetch u # es) = batches es"
  "batches (Progress a t # es) = batches es"
  "batches (AddLayersThrew b # es) = batches es"
  "batches (es @ es') = batches es @ batches es'"
  by (simp_all add: batches_def)

lemma later_batches:
  "snd (ingest lib i fs []) = Inr rem \<Longrightarrow> to_next i = chunkSize \<Longrightarrow>
   k < length (batches (fst (ingest lib i fs []))) \<Longrightarrow>
   batches (fst (ingest lib i fs [])) ! k = points lib (take chunkSize (drop (k * chunkSize) fs)) \<and>
   Suc k * chunkSize \<le> length fs"
proof (induction k arbitrary: i fs)
  case 0
  note w = ingest_window [OF "0.prems"(1)]
  from "0.prems"(2,3) show ?case by (simp add: w split: if_splits)
next
  case (Suc k)
  note w = ingest_window [OF Suc.prems(1)]
  from Suc.prems have len: "\<not> length fs < chunkSize"
    by (simp add: w split: if_splits)
  have nt: "snd (ingest lib (i + chunkSize) (drop chunkSize fs) []) = Inr rem"
    using Suc.prems(1,2) len by (simp add: w)
  have b: "batches (fst (ingest lib i fs [])) =
      points lib (take chunkSize fs) # batches (fst (ingest lib (i + chunkSize) (drop chunkSize fs) []))"
    using len Suc.prems(2) by (simp add: w)
  with Suc.prems(3) have k: "k < length (batches (fst (ingest lib (i + chunkSize) (drop chunkSize fs) [])))"
    by simp
  note IH = Suc.IH [OF nt to_next_period [OF Suc.prems(2)] k]
  from IH have "chunkSize + k * chunkSize \<le> length fs - chunkSize" by simp
  with len have "chunkSize + (chunkSize + k * chunkSize) \<le> length fs" by linarith
  then have "Suc (Suc k) * chunkSize \<le> length fs" by simp
  moreover from IH b have "batches (fst (ingest lib i fs [])) ! Suc k =
      points lib (take chunkSize (drop (Suc k * chunkSize) fs))"
    by (simp add: add.commute)
  ultimately show ?case by simp
qed

lemma first_batches:
  assumes "snd (ingest lib 0 fs []) = Inr rem"
  shows "batches (fst (ingest lib 0 fs [])) =
     (if length fs \<le> chunkSize then []
      else points lib (take (Suc chunkSize) fs) #
           batches (fst (ingest lib (Suc chunkSize) (drop (Suc chunkSize) fs) [])))"
  by (simp add: ingest_window [OF assms] to_next_def not_less_eq_eq less_Suc_eq_le)

lemma first_window_runs:
  assumes "snd (ingest lib 0 fs []) = Inr rem" and "chunkSize < length fs"
  shows "snd (ingest lib (Suc chunkSize) (drop (Suc chunkSize) fs) []) = Inr rem"
proof -
  note w = ingest_window [OF assms(1)]
  have "snd (ingest lib 0 fs []) = snd (ingest lib (Suc chunkSize) (drop (Suc chunkSize) fs) [])"
    using assms(2) by (simp add: w to_next_def)
  with assms(1) show ?thesis by simp
qed


section \<open>The relevance policy\<close>

text \<open>
  C9. For every viewport and zoom level \<open>getVisibleDistricts\<close> returns the whole ordered
  list of shard descriptors of the catalog; the zoom test changes nothing. It returns
  the empty list in place of the catalog's list only when the catalog has not been
  loaded.
\<close>

theorem getVisibleDistricts_all:
  "getVisibleDistricts bounds zoom s = (case index s of None \<Rightarrow> [] | Some idx \<Rightarrow> districts idx)"
  by (simp add: getVisibleDistricts_def split: option.splits)


section \<open>Coordinates\<close>

lemma circleMarker_of_array:
  assumes "feature \<noteq> JUndefined" "feature \<noteq> JNull"
    and "get feature ''geometry'' = g" "truthy g"
    and "get g ''coordinates'' = JArr xs"
  shows "circleMarker_of lib feature =
           (if constructs lib (elem_at xs 1, elem_at xs 0)
            then Inr (Some \<lparr> latlng = (elem_at xs 1, elem_at xs 0),
                              props = or_js (get feature ''properties'') (JObj []) \<rparr>)
            else Inl LibraryError)"
  using assms by (simp add: circleMarker_of_def has_coordinates_def and_js_def)

lemma has_coordinates_object:
  assumes "has_coordinates feature"
  shows "feature \<noteq> JUndefined" "feature \<noteq> JNull" "truthy (get feature ''geometry'')"
  using assms by (auto simp: has_coordinates_def and_js_def split: if_splits)

text \<open>
  C10. A feature that passes the guard of line 113 and whose coordinates are the array
  \<open>[lng, lat, ...]\<close> of two numbers, and possibly more elements, gives a marker at
  \<open>[lat, lng]\<close>: the two numbers in reversed order, unchanged, whatever they are. In
  particular a feature whose geometry holds the pair \<open>[x, y]\<close> gives the marker at
  \<open>(y, x)\<close> for all numbers \<open>x\<close> and \<open>y\<close>. For elements \<open>a\<close>, \<open>b\<close> of any kind the constructor
  is called with \<open>[b, a]\<close>; the marker is at \<open>(b, a)\<close> if the constructor returns, and
  the iteration throws if it does not.
\<close>

theorem marker_reverses_coordinates:
  "(has_coordinates feature
      \<and> get (get feature ''geometry'') ''coordinates'' = JArr (JNum lng # JNum lat # alt)
      \<longrightarrow> (\<exists>m. circleMarker_of lib feature = Inr (Some m) \<and> latlng m = (JNum lat, JNum lng)))
   \<and> circleMarker_of lib (JObj [(''geometry'', JObj [(''coordinates'', JArr [JNum x, JNum y])])])
       = Inr (Some \<lparr> latlng = (JNum y, JNum x), props = JObj [] \<rparr>)
   \<and> (has_coordinates feature \<and> get (get feature ''geometry'') ''coordinates'' = JArr (a # b # alt)
      \<longrightarrow> (if constructs lib (b, a)
           then \<exists>m. circleMarker_of lib feature = Inr (Some m) \<and> latlng m = (b, a)
           else circleMarker_of lib feature = Inl LibraryError))"
proof (intro conjI impI)
  assume h: "has_coordinates feature
      \<and> get (get feature ''geometry'') ''coordinates'' = JArr (JNum lng # JNum lat # alt)"
  then show "\<exists>m. circleMarker_of lib feature = Inr (Some m) \<and> latlng m = (JNum lat, JNum lng)"
    using has_coordinates_object [of feature]
    by (simp add: circleMarker_of_array [where xs = "JNum lng # JNum lat # alt"] elem_at_def)
next
  show "circleMarker_of lib (JObj [(''geometry'', JObj [(''coordinates'', JArr [JNum x, JNum y])])])
       = Inr (Some \<lparr> latlng = (JNum y, JNum x), props = JObj [] \<rparr>)"
    by (simp add: circleMarker_of_def has_coordinates_def and_js_def or_js_def elem_at_def)
next
  assume h: "has_coordinates feature
      \<and> get (get feature ''geometry'') ''coordinates'' = JArr (a # b # alt)"
  then show "if constructs lib (b, a)
           then \<exists>m. circleMarker_of lib feature = Inr (Some m) \<and> latlng m = (b, a)
           else circleMarker_of lib feature = Inl LibraryError"
    using has_coordinates_object [of feature]
    by (simp add: circleMarker_of_array [where xs = "a # b # alt"] elem_at_def)
qed

theorem marker_reverses_coordinates_witness:
  "has_coordinates (JObj [(''geometry'', JObj [(''coordinates'', JArr [JNum (-3.70), JNum 40.41, JNum 650])])])
   \<and> (\<exists>m. circleMarker_of sample_lib
              (JObj [(''geometry'', JObj [(''coordinates'', JArr [JNum (-3.70), JNum 40.41, JNum 650])])])
            = Inr (Some m) \<and> latlng m = (JNum 40.41, JNum (-3.70)))
   \<and> has_coordinates (JObj [(''geometry'', JObj [(''coordinates'', JArr [JNum 5, JStr ''x''])])])
   \<and> \<not> constructs sample_lib (JStr ''x'', JNum 5)
   \<and> circleMarker_of sample_lib (JObj [(''geometry'', JObj [(''coordinates'', JArr [JNum 5, JStr ''x''])])])
       = Inl LibraryError"
proof -
  let ?f = "JObj [(''geometry'', JObj [(''coordinates'', JArr [JNum (-3.70), JNum 40.41, JNum 650])])]"
  let ?g = "JObj [(''geometry'', JObj [(''coordinates'', JArr [JNum 5, JStr ''x''])])]"
  have h: "has_coordinates ?f \<and>
      get (get ?f ''geometry'') ''coordinates'' = JArr (JNum (-3.70) # JNum 40.41 # [JNum 650])"
    by (simp add: has_coordinates_def and_js_def)
  have g: "has_coordinates ?g \<and>
      get (get ?g ''geometry'') ''coordinates'' = JArr (JNum 5 # JStr ''x'' # [])"
    by (simp add: has_coordinates_def and_js_def)
  have c: "\<not> constructs sample_lib (JStr ''x'', JNum 5)" by (simp add: sample_lib_def)
  from marker_reverses_coordinates [of ?f "-3.70" "40.41" "[JNum 650]" sample_lib, THEN conjunct1] h
  have "\<exists>m. circleMarker_of sample_lib ?f = Inr (Some m) \<and> latlng m = (JNum 40.41, JNum (-3.70))"
    by blast
  moreover
  from marker_reverses_coordinates [where feature = ?g and a = "JNum 5" and b = "JStr ''x''"
      and alt = "[]" and lib = sample_lib, THEN conjunct2, THEN conjunct2] g c
  have "circleMarker_of sample_lib ?g = Inl LibraryError" by simp
  ultimately show ?thesis using h g c by blast
qed


section \<open>Loading one shard\<close>

lemma perform_simps [simp]:
  "effects (perform es s) = effects s @ es"
  "loadedDistricts (perform es s) = loadedDistricts s"
  "districtLayers (perform es s) = districtLayers s"
  "isLoading (perform es s) = isLoading s"
  "index (perform es s) = index s"
  by (simp_all add: perform_def)

lemma perform_perform: "perform es' (perform es s) = perform (es @ es') s"
  by (simp add: perform_def)

lemma mark_loaded_simps [simp]:
  "effects (mark_loaded d s) = effects s"
  "loadedDistricts (mark_loaded d s) = set_add (code d) (loadedDistricts s)"
  "isLoading (mark_loaded d s) = isLoading s"
  "index (mark_loaded d s) = index s"
  by (simp_all add: mark_loaded_def)

lemma set_set_add [simp]: "set (set_add c xs) = insert c (set xs)"
  by (auto simp: set_add_def)

lemma loadDistrict_resident:
  "code d \<in> set (loadedDistricts s) \<Longrightarrow> loadDistrict lib net d s = s"
  by (simp add: loadDistrict_def loadDistrict_exn_def)

lemma loadDistrict_try:
  "code d \<notin> set (loadedDistricts s) \<Longrightarrow> loadDistrict lib net d s = fst (try_block lib net d s)"
  by (simp add: loadDistrict_def loadDistrict_exn_def split: prod.splits option.splits)

lemma loadDistrict_failed:
  "code d \<notin> set (loadedDistricts s) \<Longrightarrow> failed (net (length (effects s)) (url_of d)) \<Longrightarrow>
   loadDistrict lib net d s = perform [Fetch (url_of d)] s"
  by (cases "net (length (effects s)) (url_of d)" rule: failed.cases)
     (simp_all add: loadDistrict_try try_block_def Let_def)

lemma loadDistrict_collection:
  "code d \<notin> set (loadedDistricts s) \<Longrightarrow>
   net (length (effects s)) (url_of d) = Response status (Collection features) \<Longrightarrow> ok status \<Longrightarrow>
   loadDistrict lib net d s =
     fst (after_loop lib d (snd (ingest lib 0 features []))
            (perform (Fetch (url_of d) # fst (ingest lib 0 features [])) s))"
  by (simp add: loadDistrict_try try_block_def Let_def case_prod_beta perform_perform)

lemma list_ex_throws: "list_ex (throws lib) fs \<longleftrightarrow> (\<exists>f \<in> set fs. throws lib f)"
  by (simp add: list_ex_iff)

lemma runs_through_iff: "runs_through lib fs \<longleftrightarrow> (\<exists>rem. snd (ingest lib 0 fs []) = Inr rem)"
  by (cases "snd (ingest lib 0 fs [])") (simp_all add: runs_through_def)

lemma ingests_iff:
  "ingests lib fs \<longleftrightarrow> (\<exists>rem. snd (ingest lib 0 fs []) = Inr rem \<and> (rem = [] \<or> adds lib rem))"
  by (cases "snd (ingest lib 0 fs [])") (simp_all add: ingests_def)

lemma ingests_runs_through: "ingests lib fs \<Longrightarrow> runs_through lib fs"
  by (auto simp: ingests_iff runs_through_iff)

lemma runs_through_no_throw: "runs_through lib fs \<Longrightarrow> \<forall>f \<in> set fs. \<not> throws lib f"
  using ingest_no_throw [of lib 0 fs "[]"] by (auto simp: runs_through_iff)

lemma set_points: "set (points lib fs) = (\<Union>f \<in> set fs. set (pushed_by lib f))"
  by (simp add: points_def)

text \<open>
  With a library whose \<open>addLayers\<close> takes every batch, the ingestion does not throw
  exactly when no feature makes the loop body throw.
\<close>

lemma runs_through_lenient:
  assumes "\<forall>b. adds lib b"
  shows "runs_through lib fs \<longleftrightarrow> \<not> list_ex (throws lib) fs"
    and "ingests lib fs \<longleftrightarrow> \<not> list_ex (throws lib) fs"
proof -
  show r: "runs_through lib fs \<longleftrightarrow> \<not> list_ex (throws lib) fs"
  proof
    assume "runs_through lib fs"
    then show "\<not> list_ex (throws lib) fs"
      using runs_through_no_throw [of lib fs] by (simp add: list_ex_throws)
  next
    assume "\<not> list_ex (throws lib) fs"
    then have "\<forall>f \<in> set fs. \<not> throws lib f" by (simp add: list_ex_throws)
    from ingest_runs [OF this, of UNIV "[]" 0] assms show "runs_through lib fs"
      by (simp add: runs_through_iff)
  qed
  from assms have "ingests lib fs \<longleftrightarrow> runs_through lib fs"
    by (simp add: ingests_iff runs_through_iff)
  with r show "ingests lib fs \<longleftrightarrow> \<not> list_ex (throws lib) fs" by simp
qed

lemma after_loop_Inr:
  "rem = [] \<or> adds lib rem \<Longrightarrow>
   after_loop lib d (Inr rem) s =
     (mark_loaded d (if rem \<noteq> [] then perform [AddLayers rem] s else s), None)"
  by (auto simp: after_loop_def)

lemma after_loop_refused:
  "rem \<noteq> [] \<Longrightarrow> \<not> adds lib rem \<Longrightarrow>
   after_loop lib d (Inr rem) s = (perform [AddLayersThrew rem] s, Some LibraryError)"
  by (simp add: after_loop_def)

lemma after_loop_Inl: "after_loop lib d (Inl e) s = (s, Some e)"
  by (simp add: after_loop_def)

lemma loadDistrict_handed:
  assumes "code d \<notin> set (loadedDistricts s)"
    and "net (length (effects s)) (url_of d) = Response status (Collection features)" "ok status"
    and "ingests lib features"
  shows "handed (effects (loadDistrict lib net d s)) = handed (effects s) @ points lib features"
    and "set (loadedDistricts (loadDistrict lib net d s)) = insert (code d) (set (loadedDistricts s))"
proof -
  from assms(4) obtain rem where r: "snd (ingest lib 0 features []) = Inr rem"
    and a: "rem = [] \<or> adds lib rem"
    by (auto simp: ingests_iff)
  from ingest_handed [OF r]
  have h: "handed (fst (ingest lib 0 features [])) @ rem = points lib features" by simp
  have e: "loadDistrict lib net d s =
      mark_loaded d (if rem \<noteq> [] then perform [AddLayers rem]
                                         (perform (Fetch (url_of d) # fst (ingest lib 0 features [])) s)
                     else perform (Fetch (url_of d) # fst (ingest lib 0 features [])) s)"
    using r by (simp add: loadDistrict_collection [of d s net status features, OF assms(1-3)]
         after_loop_Inr [OF a])
  show "handed (effects (loadDistrict lib net d s)) = handed (effects s) @ points lib features"
    using h by (cases "rem = []") (auto simp: e)
  show "set (loadedDistricts (loadDistrict lib net d s)) = insert (code d) (set (loadedDistricts s))"
    by (simp add: e)
qed

lemma loadDistrict_thrown:
  assumes "code d \<notin> set (loadedDistricts s)"
    and "net (length (effects s)) (url_of d) = Response status (Collection features)" "ok status"
    and "\<not> ingests lib features"
  shows "loadedDistricts (loadDistrict lib net d s) = loadedDistricts s"
proof (cases "snd (ingest lib 0 features [])")
  case (Inl e)
  then show ?thesis
    by (simp add: loadDistrict_collection [of d s net status features, OF assms(1-3)] after_loop_Inl)
next
  case (Inr rem)
  with assms(4) have "rem \<noteq> []" "\<not> adds lib rem" by (auto simp: ingests_iff)
  with Inr show ?thesis
    by (simp add: loadDistrict_collection [of d s net status features, OF assms(1-3)]
          after_loop_refused)
qed

lemma pushed_by_guard:
  "\<not> throws lib f \<Longrightarrow> length (pushed_by lib f) = (if has_coordinates f then 1 else 0)"
  by (auto simp: throws_def pushed_by_def circleMarker_of_def split: sum.splits if_splits option.splits prod.splits)

lemma length_points:
  "\<forall>f \<in> set fs. \<not> throws lib f \<Longrightarrow> length (points lib fs) = length (filter has_coordinates fs)"
  by (induction fs) (simp_all add: points_def pushed_by_guard)

lemma throws_characterised:
  "throws lib f \<longleftrightarrow>
     f = JUndefined \<or> f = JNull \<or>
     (has_coordinates f \<and>
        (\<not> iterable (get (get f ''geometry'') ''coordinates'') \<or> \<not> constructs lib (position_of f)))"
proof (cases "iterable (get (get f ''geometry'') ''coordinates'')")
  case True
  then show ?thesis
    by (cases "get (get f ''geometry'') ''coordinates''")
       (simp_all add: throws_def circleMarker_of_def position_of_def)
next
  case False
  then show ?thesis
    by (cases "get (get f ''geometry'') ''coordinates''")
       (simp_all add: throws_def circleMarker_of_def)
qed

lemma length_batches_yields:
  "length (batches (fst (ingest lib i fs buf))) = yields (fst (ingest lib i fs buf))"
proof (induction fs arbitrary: i buf)
  case Nil
  show ?case by simp
next
  case (Cons f fs)
  show ?case
  proof (cases "circleMarker_of lib f")
    case (Inl e)
    then show ?thesis by simp
  next
    case (Inr m)
    show ?thesis
    proof (cases "i > 0 \<and> i mod chunkSize = 0")
      case False
      with Inr Cons.IH show ?thesis by (simp add: ingest_Cons_keep)
    next
      case True
      with Inr Cons.IH show ?thesis
        by (cases "adds lib (buf @ (case m of Some mk \<Rightarrow> [mk] | None \<Rightarrow> []))")
           (simp_all add: ingest_Cons_flush ingest_Cons_refused)
    qed
  qed
qed

lemma filter_compl_length:
  "length xs - length (filter (Not \<circ> P) xs) = length (filter P xs)"
  using sum_length_filter_compl [of P xs] by (simp add: comp_def)

text \<open>
  C1 (amended). When the ingestion of a collection does not throw, a feature of it
  gives exactly one render point if and only if its \<open>geometry\<close> and the \<open>coordinates\<close>
  of that geometry are both truthy, whether or not the coordinates are a pair of two
  elements; otherwise it gives none and is passed over. The points handed to the layer
  by \<open>loadDistrict\<close> are then those of the features that pass the guard, each once and
  in order, and their number is the number of features minus those that fail the
  guard. An ingestion that does not throw has no feature that makes the loop body
  throw; and the body throws on a feature exactly when the feature is \<open>null\<close>, or it
  passes the guard and its coordinates are neither an array nor a string or the
  library refuses to build a marker at the position they give. An ingestion that throws
  leaves the set of resident shards as it was.
\<close>

theorem render_points_of_shard:
  "(code d \<notin> set (loadedDistricts s)
      \<and> net (length (effects s)) (url_of d) = Response status (Collection features)
      \<and> ok status \<and> ingests lib features
    \<longrightarrow> handed (effects (loadDistrict lib net d s))
          = handed (effects s) @ concat (map (pushed_by lib) features)
      \<and> (\<forall>f \<in> set features. length (pushed_by lib f) = (if has_coordinates f then 1 else 0))
      \<and> length (concat (map (pushed_by lib) features))
          = length features - length (filter (Not \<circ> has_coordinates) features))
   \<and> (ingests lib features \<longrightarrow> \<not> list_ex (throws lib) features)
   \<and> (throws lib f \<longleftrightarrow>
        f = JUndefined \<or> f = JNull \<or>
        (has_coordinates f \<and>
           (\<not> iterable (get (get f ''geometry'') ''coordinates'') \<or> \<not> constructs lib (position_of f))))
   \<and> (code d \<notin> set (loadedDistricts s)
      \<and> net (length (effects s)) (url_of d) = Response status (Collection features)
      \<and> ok status \<and> \<not> ingests lib features
    \<longrightarrow> loadedDistricts (loadDistrict lib net d s) = loadedDistricts s)"
proof (intro conjI impI)
  assume a: "code d \<notin> set (loadedDistricts s)
      \<and> net (length (effects s)) (url_of d) = Response status (Collection features)
      \<and> ok status \<and> ingests lib features"
  then have nt: "\<forall>f \<in> set features. \<not> throws lib f"
    using runs_through_no_throw [OF ingests_runs_through] by blast
  from a have "handed (effects (loadDistrict lib net d s)) = handed (effects s) @ points lib features"
    using loadDistrict_handed(1) [of d s net status features lib] by blast
  then show "handed (effects (loadDistrict lib net d s))
          = handed (effects s) @ concat (map (pushed_by lib) features)"
    by (simp add: points_def)
  show "\<forall>f \<in> set features. length (pushed_by lib f) = (if has_coordinates f then 1 else 0)"
    using nt by (simp add: pushed_by_guard)
  have "length (points lib features)
      = length features - length (filter (Not \<circ> has_coordinates) features)"
    using nt by (simp add: length_points filter_compl_length)
  then show "length (concat (map (pushed_by lib) features))
      = length features - length (filter (Not \<circ> has_coordinates) features)"
    by (simp add: points_def)
next
  assume "ingests lib features"
  then show "\<not> list_ex (throws lib) features"
    using runs_through_no_throw [OF ingests_runs_through] by (simp add: list_ex_throws)
next
  show "throws lib f \<longleftrightarrow>
        f = JUndefined \<or> f = JNull \<or>
        (has_coordinates f \<and>
           (\<not> iterable (get (get f ''geometry'') ''coordinates'') \<or> \<not> constructs lib (position_of f)))"
    by (rule throws_characterised)
next
  assume "code d \<notin> set (loadedDistricts s)
      \<and> net (length (effects s)) (url_of d) = Response status (Collection features)
      \<and> ok status \<and> \<not> ingests lib features"
  then show "loadedDistricts (loadDistrict lib net d s) = loadedDistricts s"
    using loadDistrict_thrown [of d s net status features lib] by blast
qed


lemma sample_markers:
  "circleMarker_of lib tree = Inr (Some \<lparr> latlng = (JNum 40.41, JNum (-3.70)), props = JObj [] \<rparr>)"
  "circleMarker_of lib tree_with_altitude = Inr (Some \<lparr> latlng = (JNum 40.41, JNum (-3.70)), props = JObj [] \<rparr>)"
  "circleMarker_of lib scalar_coordinates = Inl TypeError"
  "circleMarker_of lib no_geometry = Inr None"
  "circleMarker_of sample_lib empty_coordinates = Inl LibraryError"
  "circleMarker_of sample_lib latitude_object
     = Inr (Some \<lparr> latlng = (JObj [], JNum (-3.70)), props = JObj [] \<rparr>)"
  by (simp_all add: tree_def tree_with_altitude_def scalar_coordinates_def no_geometry_def
        empty_coordinates_def latitude_object_def sample_lib_def
        circleMarker_of_def has_coordinates_def and_js_def or_js_def elem_at_def)

lemma sample_throws:
  "\<not> throws lib tree" "\<not> throws lib tree_with_altitude" "throws lib scalar_coordinates"
  "\<not> throws lib no_geometry" "throws sample_lib empty_coordinates" "\<not> throws sample_lib latitude_object"
  by (simp_all add: throws_def sample_markers)

lemma sample_guard:
  "has_coordinates tree" "has_coordinates tree_with_altitude" "has_coordinates scalar_coordinates"
  "\<not> has_coordinates no_geometry" "has_coordinates empty_coordinates" "has_coordinates latitude_object"
  by (simp_all add: tree_def tree_with_altitude_def scalar_coordinates_def no_geometry_def
        empty_coordinates_def latitude_object_def has_coordinates_def and_js_def)

lemma sample_pair:
  "spec_coordinate_pair tree" "\<not> spec_coordinate_pair tree_with_altitude"
  "\<not> spec_coordinate_pair scalar_coordinates" "\<not> spec_coordinate_pair no_geometry"
  "\<not> spec_coordinate_pair empty_coordinates" "spec_coordinate_pair latitude_object"
  by (simp_all add: tree_def tree_with_altitude_def scalar_coordinates_def no_geometry_def
        empty_coordinates_def latitude_object_def spec_coordinate_pair_def)

lemma sample_pushed:
  "pushed_by lib tree = [\<lparr> latlng = (JNum 40.41, JNum (-3.70)), props = JObj [] \<rparr>]"
  "pushed_by lib tree_with_altitude = [\<lparr> latlng = (JNum 40.41, JNum (-3.70)), props = JObj [] \<rparr>]"
  "pushed_by lib scalar_coordinates = []"
  "pushed_by lib no_geometry = []"
  "pushed_by sample_lib empty_coordinates = []"
  "pushed_by sample_lib latitude_object = [\<lparr> latlng = (JObj [], JNum (-3.70)), props = JObj [] \<rparr>]"
  by (simp_all add: pushed_by_def sample_markers)

lemma sample_lib_adds [simp]: "adds sample_lib b = list_all positioned b"
  by (simp add: sample_lib_def)

lemma sample_positioned [simp]:
  "positioned \<lparr> latlng = (JNum lat, JNum lng), props = p \<rparr>"
  "\<not> positioned \<lparr> latlng = (JObj kvs, lng'), props = p \<rparr>"
  by (simp_all add: positioned_def)

text \<open>The sample library takes a collection whose points all have a position of two numbers.\<close>

lemma sample_lib_runs:
  assumes "\<forall>f \<in> set fs. \<not> throws sample_lib f \<and> list_all positioned (pushed_by sample_lib f)"
  shows "runs_through sample_lib fs" and "ingests sample_lib fs"
proof -
  from assms have nt: "\<forall>f \<in> set fs. \<not> throws sample_lib f" by simp
  from assms have pts: "set (points sample_lib fs) \<subseteq> {m. positioned m}"
    by (auto simp: set_points list_all_iff)
  have acc: "\<forall>b. set b \<subseteq> {m. positioned m} \<longrightarrow> adds sample_lib b"
    by (auto simp: list_all_iff)
  from ingest_runs [OF nt acc _ pts, of "[]" 0]
  obtain rem where r: "snd (ingest sample_lib 0 fs []) = Inr rem" by auto
  then show "runs_through sample_lib fs" by (auto simp: runs_through_iff)
  from ingest_handed [OF r] have "set rem \<subseteq> set (points sample_lib fs)"
    by (metis append_Nil set_append Un_upper2)
  with pts have "adds sample_lib rem" by (auto simp: list_all_iff)
  with r show "ingests sample_lib fs" by (auto simp: ingests_iff)
qed

lemma fresh_simps [simp]:
  "loadedDistricts (fresh idx) = []" "effects (fresh idx) = []" "isLoading (fresh idx) = False"
  "index (fresh idx) = idx"
  by (simp_all add: fresh_def initial_def)

lemma ok_200 [simp]: "ok 200" "\<not> ok 500"
  by (simp_all add: ok_def)

theorem render_points_of_shard_witness:
  "code shard1 \<notin> set (loadedDistricts (fresh None))
   \<and> always (Response 200 (Collection [tree, no_geometry, tree_with_altitude]))
        (length (effects (fresh None))) (url_of shard1)
      = Response 200 (Collection [tree, no_geometry, tree_with_altitude])
   \<and> ok 200 \<and> ingests sample_lib [tree, no_geometry, tree_with_altitude]
   \<and> has_coordinates tree \<and> \<not> has_coordinates no_geometry \<and> has_coordinates tree_with_altitude
   \<and> handed (effects (loadDistrict sample_lib
         (always (Response 200 (Collection [tree, no_geometry, tree_with_altitude]))) shard1 (fresh None)))
      = [\<lparr> latlng = (JNum 40.41, JNum (-3.70)), props = JObj [] \<rparr>,
         \<lparr> latlng = (JNum 40.41, JNum (-3.70)), props = JObj [] \<rparr>]
   \<and> \<not> ingests sample_lib [tree, empty_coordinates]
   \<and> throws sample_lib empty_coordinates
   \<and> loadedDistricts (loadDistrict sample_lib
         (always (Response 200 (Collection [tree, empty_coordinates]))) shard1 (fresh None)) = []"
proof -
  let ?fs = "[tree, no_geometry, tree_with_altitude]"
  let ?net = "always (Response 200 (Collection ?fs))"
  let ?gs = "[tree, empty_coordinates]"
  let ?net' = "always (Response 200 (Collection ?gs))"
  have h1: "code shard1 \<notin> set (loadedDistricts (fresh None))" by simp
  have h2: "?net (length (effects (fresh None))) (url_of shard1) = Response 200 (Collection ?fs)"
    by (simp add: always_def)
  have h2': "?net' (length (effects (fresh None))) (url_of shard1) = Response 200 (Collection ?gs)"
    by (simp add: always_def)
  have h3: "ok 200" by simp
  have h4: "ingests sample_lib ?fs"
    by (rule sample_lib_runs) (simp add: sample_throws sample_pushed)
  have h5: "\<not> ingests sample_lib ?gs"
    by (simp add: ingests_def ingest_Cons_keep [OF sample_markers(1)] sample_markers)
  note t = render_points_of_shard [of shard1 "fresh None" ?net 200 ?fs sample_lib]
  note u = render_points_of_shard [of shard1 "fresh None" ?net' 200 ?gs sample_lib empty_coordinates]
  from t [THEN conjunct1] h1 h2 h3 h4
  have "handed (effects (loadDistrict sample_lib ?net shard1 (fresh None)))
      = [\<lparr> latlng = (JNum 40.41, JNum (-3.70)), props = JObj [] \<rparr>,
         \<lparr> latlng = (JNum 40.41, JNum (-3.70)), props = JObj [] \<rparr>]"
    by (simp add: sample_pushed)
  moreover from u [THEN conjunct2, THEN conjunct2, THEN conjunct2] h1 h2' h3 h5
  have "loadedDistricts (loadDistrict sample_lib ?net' shard1 (fresh None)) = []" by simp
  ultimately show ?thesis using h1 h2 h3 h4 h5 by (simp add: sample_guard sample_throws)
qed

text \<open>
  C1 as stated fails. A collection of a well-formed feature and one whose coordinates
  are the number 7 should give one render point; the destructuring throws on the
  second feature, the buffer is never flushed and nothing is handed over. And a
  feature with three coordinates, which is no pair, gives a render point.
\<close>

theorem malformed_geometry_counterexample:
  "spec_coordinate_pair tree \<and> \<not> spec_coordinate_pair scalar_coordinates
   \<and> length [tree, scalar_coordinates]
        - length (filter (Not \<circ> spec_coordinate_pair) [tree, scalar_coordinates]) = 1
   \<and> handed (effects (loadDistrict sample_lib
         (always (Response 200 (Collection [tree, scalar_coordinates]))) shard1 (fresh None))) = []
   \<and> \<not> spec_coordinate_pair tree_with_altitude
   \<and> length (pushed_by sample_lib tree_with_altitude) = 1"
proof -
  let ?fs = "[tree, scalar_coordinates]"
  have "loadDistrict sample_lib (always (Response 200 (Collection ?fs))) shard1 (fresh None)
      = perform [Fetch (url_of shard1)] (fresh None)"
    by (simp add: loadDistrict_collection [of shard1 "fresh None" _ 200 ?fs] always_def
          ingest.simps(2) sample_markers after_loop_def)
  then show ?thesis by (simp add: sample_pair sample_pushed)
qed


text \<open>The log of a load whose loop runs to its end.\<close>

lemma loadDistrict_log:
  assumes "code d \<notin> set (loadedDistricts s)"
    and "net (length (effects s)) (url_of d) = Response status (Collection features)"
    and "ok status"
    and "runs_through lib features"
  obtains rem where "snd (ingest lib 0 features []) = Inr rem"
    and "effects (loadDistrict lib net d s) =
           effects s @ Fetch (url_of d) # fst (ingest lib 0 features [])
             @ (if rem = [] then [] else if adds lib rem then [AddLayers rem] else [AddLayersThrew rem])"
proof -
  from assms(4) obtain rem where r: "snd (ingest lib 0 features []) = Inr rem"
    by (auto simp: runs_through_iff)
  have "effects (loadDistrict lib net d s) =
           effects s @ Fetch (url_of d) # fst (ingest lib 0 features [])
             @ (if rem = [] then [] else if adds lib rem then [AddLayers rem] else [AddLayersThrew rem])"
    using r by (simp add: loadDistrict_collection [of d s net status features, OF assms(1-3)]
        after_loop_def)
  with r that show thesis by blast
qed

lemma loadDistrict_yields:
  assumes "code d \<notin> set (loadedDistricts s)"
    and "net (length (effects s)) (url_of d) = Response status (Collection features)"
    and "ok status"
    and "runs_through lib features"
  shows "yields (effects (loadDistrict lib net d s))
           = yields (effects s) + (length features - 1) div chunkSize"
proof -
  obtain rem where r: "snd (ingest lib 0 features []) = Inr rem"
    and "effects (loadDistrict lib net d s) =
           effects s @ Fetch (url_of d) # fst (ingest lib 0 features [])
             @ (if rem = [] then [] else if adds lib rem then [AddLayers rem] else [AddLayersThrew rem])"
    using loadDistrict_log [of d s net status features, OF assms] by blast
  then have "yields (effects (loadDistrict lib net d s))
      = yields (effects s) + yields (fst (ingest lib 0 features []))"
    by simp
  then show ?thesis using ingest_yields [OF r] by simp
qed


text \<open>
  C6 (amended). When no iteration of the loop throws, ingesting a collection of \<open>M\<close>
  features, valid or not, yields \<open>(M - 1) div 500\<close> times: once after each of the
  features at index 500, 1000, ..., and not after the loop.
\<close>

theorem yields_of_shard:
  assumes "code d \<notin> set (loadedDistricts s)"
    and "net (length (effects s)) (url_of d) = Response status (Collection features)"
    and "ok status"
    and "runs_through lib features"
  shows "yields (effects (loadDistrict lib net d s))
           = yields (effects s) + (length features - 1) div 500"
  using loadDistrict_yields [of d s net status features, OF assms] by (simp add: chunkSize_def)

theorem yields_of_shard_witness:
  "code shard1 \<notin> set (loadedDistricts (fresh None))
   \<and> always (Response 200 (Collection (replicate 1001 tree)))
        (length (effects (fresh None))) (url_of shard1)
      = Response 200 (Collection (replicate 1001 tree))
   \<and> ok 200 \<and> runs_through sample_lib (replicate 1001 tree)
   \<and> yields (effects (loadDistrict sample_lib
         (always (Response 200 (Collection (replicate 1001 tree)))) shard1 (fresh None))) = 2"
proof -
  let ?fs = "replicate 1001 tree"
  let ?net = "always (Response 200 (Collection ?fs))"
  have h1: "code shard1 \<notin> set (loadedDistricts (fresh None))" by simp
  have h2: "?net (length (effects (fresh None))) (url_of shard1) = Response 200 (Collection ?fs)"
    by (simp add: always_def)
  have h3: "ok 200" by simp
  have h4: "runs_through sample_lib ?fs"
    by (rule sample_lib_runs) (simp add: sample_throws sample_pushed)
  from yields_of_shard [of shard1 "fresh None" ?net 200 ?fs, OF h1 h2 h3 h4] h1 h2 h3 h4
  show ?thesis by simp
qed

text \<open>
  C6 as stated fails. Of 501 features only the first is valid, so \<open>N = 1\<close> and no yield
  is expected; the loop yields once, at index 500.
\<close>

theorem yields_count_all_features_counterexample:
  "length (filter spec_coordinate_pair (tree # replicate 500 no_geometry)) = 1
   \<and> length (filter has_coordinates (tree # replicate 500 no_geometry)) = 1
   \<and> yields (effects (loadDistrict sample_lib
         (always (Response 200 (Collection (tree # replicate 500 no_geometry)))) shard1 (fresh None))) = 1
   \<and> (1 - 1) div (500::nat) = 0"
proof -
  let ?fs = "tree # replicate 500 no_geometry"
  let ?net = "always (Response 200 (Collection ?fs))"
  have h1: "code shard1 \<notin> set (loadedDistricts (fresh None))" by simp
  have h2: "?net (length (effects (fresh None))) (url_of shard1) = Response 200 (Collection ?fs)"
    by (simp add: always_def)
  have h3: "ok 200" by simp
  have h4: "runs_through sample_lib ?fs"
    by (rule sample_lib_runs) (auto simp: sample_throws sample_pushed)
  from loadDistrict_yields [of shard1 "fresh None" ?net 200 ?fs, OF h1 h2 h3 h4]
  have "yields (effects (loadDistrict sample_lib ?net shard1 (fresh None))) = 1" by (simp add: chunkSize_def)
  then show ?thesis by (simp add: sample_pair sample_guard)
qed

lemma length_pushed_by: "length (pushed_by lib f) \<le> 1"
  by (simp add: pushed_by_def split: sum.splits option.splits)

lemma length_points_le: "length (points lib fs) \<le> length fs"
proof (induction fs)
  case Nil
  show ?case by (simp add: points_def)
next
  case (Cons f fs)
  then show ?case using length_pushed_by [of lib f] by (simp add: points_Cons)
qed

lemma loadDistrict_later_flush:
  assumes "code d \<notin> set (loadedDistricts s)"
    and "net (length (effects s)) (url_of d) = Response status (Collection features)"
    and "ok status"
    and "runs_through lib features"
    and "0 < k" and "k < (length features - 1) div chunkSize"
  shows "batches (new_effects s (loadDistrict lib net d s)) ! k
           = points lib (take chunkSize (drop (k * chunkSize + 1) features))"
    and "k * chunkSize + 1 + chunkSize \<le> length features"
proof -
  let ?bs = "batches (fst (ingest lib 0 features []))"
  let ?rest = "drop (Suc chunkSize) features"
  let ?bs' = "batches (fst (ingest lib (Suc chunkSize) ?rest []))"
  obtain rem where r: "snd (ingest lib 0 features []) = Inr rem"
    and "effects (loadDistrict lib net d s) =
           effects s @ Fetch (url_of d) # fst (ingest lib 0 features [])
             @ (if rem = [] then [] else if adds lib rem then [AddLayers rem] else [AddLayersThrew rem])"
    using loadDistrict_log [of d s net status features, OF assms(1-4)] by blast
  then have all: "batches (new_effects s (loadDistrict lib net d s))
      = ?bs @ (if rem = [] then [] else if adds lib rem then [rem] else [])"
    by (simp add: new_effects_def)
  have len: "length ?bs = (length features - 1) div chunkSize"
    using ingest_yields [OF r] by (simp add: length_batches_yields)
  with assms(6) have k: "k < length ?bs" by simp
  then have "?bs \<noteq> []" by auto
  then have big: "\<not> length features \<le> chunkSize"
    using first_batches [OF r] by (simp split: if_splits)
  then have bs: "?bs = points lib (take (Suc chunkSize) features) # ?bs'"
    using first_batches [OF r] by simp
  from big have r': "snd (ingest lib (Suc chunkSize) ?rest []) = Inr rem"
    by (intro first_window_runs [OF r]) simp
  from assms(5) obtain j where j: "k = Suc j" by (cases k) auto
  with k bs have j': "j < length ?bs'" by simp
  have "to_next (Suc chunkSize) = chunkSize" by (rule to_next_after_flush) simp
  from later_batches [OF r' this j']
  have w: "?bs' ! j = points lib (take chunkSize (drop (j * chunkSize) ?rest))"
    and l: "Suc j * chunkSize \<le> length ?rest"
    by simp_all
  have "?bs ! k = points lib (take chunkSize (drop (k * chunkSize + 1) features))"
    using w bs j by (simp add: add.commute)
  with all k show "batches (new_effects s (loadDistrict lib net d s)) ! k
           = points lib (take chunkSize (drop (k * chunkSize + 1) features))"
    by (simp add: nth_append)
  from l have "chunkSize + j * chunkSize \<le> length features - Suc chunkSize" by simp
  with big have "Suc (chunkSize + j * chunkSize + chunkSize) \<le> length features" by linarith
  with j show "k * chunkSize + 1 + chunkSize \<le> length features" by simp
qed


section \<open>The batches of a shard\<close>

lemma length_points_all:
  "\<forall>f \<in> set fs. \<not> throws lib f \<Longrightarrow> list_all has_coordinates fs \<Longrightarrow> length (points lib fs) = length fs"
  by (simp add: length_points list_all_iff)

text \<open>
  C7 (amended). In an ingestion whose loop does not throw, every flush of the loop after
  the first one hands over, as one unit, the render points of 500 consecutive features, those
  at indices \<open>500 k + 1\<close> to \<open>500 k + 500\<close>: never more than 500 points, and exactly 500
  when all of these features pass the guard. The flush after the loop hands over what
  remains.
\<close>

theorem later_flushes_are_windows:
  assumes "code d \<notin> set (loadedDistricts s)"
    and "net (length (effects s)) (url_of d) = Response status (Collection features)"
    and "ok status"
    and "runs_through lib features"
    and "0 < k" and "k < (length features - 1) div 500"
  shows "batches (new_effects s (loadDistrict lib net d s)) ! k
           = concat (map (pushed_by lib) (take 500 (drop (k * 500 + 1) features)))
       \<and> k * 500 + 1 + 500 \<le> length features
       \<and> length (batches (new_effects s (loadDistrict lib net d s)) ! k) \<le> 500
       \<and> (list_all has_coordinates (take 500 (drop (k * 500 + 1) features))
            \<longrightarrow> length (batches (new_effects s (loadDistrict lib net d s)) ! k) = 500)"
proof -
  let ?w = "take chunkSize (drop (k * chunkSize + 1) features)"
  have k: "k < (length features - 1) div chunkSize" using assms(6) by (simp add: chunkSize_def)
  note lf = loadDistrict_later_flush [of d s net status features lib k, OF assms(1-5) k]
  have nt: "\<forall>f \<in> set ?w. \<not> throws lib f"
    using runs_through_no_throw [OF assms(4)] by (meson in_set_dropD in_set_takeD)
  have full: "length ?w = chunkSize" using lf(2) by simp
  have b: "batches (new_effects s (loadDistrict lib net d s)) ! k = points lib ?w" by (rule lf(1))
  have le: "length (points lib ?w) \<le> chunkSize" using length_points_le [of lib ?w] full by simp
  have eq: "list_all has_coordinates ?w \<longrightarrow> length (points lib ?w) = chunkSize"
    using length_points_all [OF nt] full by simp
  show ?thesis using b lf(2) le eq by (simp add: chunkSize_def points_def)
qed


lemma handed_concat_batches: "handed es = concat (batches es)"
proof (induction es)
  case Nil
  show ?case by simp
next
  case (Cons e es)
  then show ?case by (cases e) simp_all
qed

lemma points_append: "points lib (xs @ ys) = points lib xs @ points lib ys"
  by (simp add: points_def)

lemma length_points_replicate:
  "\<not> throws lib x \<Longrightarrow> length (points lib (replicate n x)) = (if has_coordinates x then n else 0)"
  by (simp add: length_points)

lemma singleton_nth: "length xs = 1 \<Longrightarrow> xs = [xs ! 0]"
  by (cases xs) auto

theorem later_flushes_are_windows_witness:
  "code shard1 \<notin> set (loadedDistricts (fresh None))
   \<and> always (Response 200 (Collection (replicate 1002 tree)))
        (length (effects (fresh None))) (url_of shard1)
      = Response 200 (Collection (replicate 1002 tree))
   \<and> ok 200 \<and> runs_through sample_lib (replicate 1002 tree)
   \<and> (0::nat) < 1 \<and> (1::nat) < (length (replicate 1002 tree) - 1) div 500
   \<and> list_all has_coordinates (take 500 (drop (1 * 500 + 1) (replicate 1002 tree)))
   \<and> length (batches (new_effects (fresh None) (loadDistrict sample_lib
         (always (Response 200 (Collection (replicate 1002 tree)))) shard1 (fresh None))) ! 1) = 500"
proof -
  let ?fs = "replicate 1002 tree"
  let ?net = "always (Response 200 (Collection ?fs))"
  have h1: "code shard1 \<notin> set (loadedDistricts (fresh None))" by simp
  have h2: "?net (length (effects (fresh None))) (url_of shard1) = Response 200 (Collection ?fs)"
    by (simp add: always_def)
  have h3: "ok 200" by simp
  have h4: "runs_through sample_lib ?fs"
    by (rule sample_lib_runs) (simp add: sample_throws sample_pushed)
  have h5: "(0::nat) < 1" by simp
  have h6: "(1::nat) < (length ?fs - 1) div 500" by simp
  have h7: "list_all has_coordinates (take 500 (drop (1 * 500 + 1) ?fs))"
    by (simp add: list_all_iff sample_guard)
  note t = later_flushes_are_windows [of shard1 "fresh None" ?net 200 ?fs sample_lib 1, OF h1 h2 h3 h4 h5 h6]
  from t h7 have res: "length (batches (new_effects (fresh None)
      (loadDistrict sample_lib ?net shard1 (fresh None))) ! 1) = 500"
    by blast
  from h1 h2 h3 h4 h5 h6 h7 res show ?thesis by blast
qed

text \<open>
  C7 as stated fails. Of 1002 features all are valid but the one at index 501. The
  second of the three flushes is neither the first nor the final one and hands over 499
  points.
\<close>

theorem flush_of_skipped_features_counterexample:
  "map length (batches (new_effects (fresh None) (loadDistrict sample_lib
      (always (Response 200 (Collection (replicate 501 tree @ no_geometry # replicate 500 tree))))
      shard1 (fresh None))))
   = [501, 499, 1]"
proof -
  let ?fs = "replicate 501 tree @ no_geometry # replicate 500 tree"
  let ?net = "always (Response 200 (Collection ?fs))"
  let ?es = "fst (ingest sample_lib 0 ?fs [])"
  let ?bs' = "batches (fst (ingest sample_lib (Suc chunkSize) (drop (Suc chunkSize) ?fs) []))"
  have h1: "code shard1 \<notin> set (loadedDistricts (fresh None))" by simp
  have h2: "?net (length (effects (fresh None))) (url_of shard1) = Response 200 (Collection ?fs)"
    by (simp add: always_def)
  have h3: "ok 200" by simp
  have good: "\<forall>f \<in> set ?fs. \<not> throws sample_lib f \<and> list_all positioned (pushed_by sample_lib f)"
    by (auto simp: sample_throws sample_pushed)
  have h4: "runs_through sample_lib ?fs" using good by (rule sample_lib_runs)
  have h4': "ingests sample_lib ?fs" using good by (rule sample_lib_runs)
  obtain rem where r: "snd (ingest sample_lib 0 ?fs []) = Inr rem"
    and log: "effects (loadDistrict sample_lib ?net shard1 (fresh None)) =
           effects (fresh None) @ Fetch (url_of shard1) # ?es
             @ (if rem = [] then [] else if adds sample_lib rem then [AddLayers rem]
                else [AddLayersThrew rem])"
    using loadDistrict_log [of shard1 "fresh None" ?net 200 ?fs, OF h1 h2 h3 h4] by blast
  from h4' r have acc: "rem = [] \<or> adds sample_lib rem" by (simp add: ingests_iff)
  have len: "length (batches ?es) = 2"
    using ingest_yields [OF r] by (simp add: length_batches_yields chunkSize_def)
  have first: "batches ?es = points sample_lib (replicate 501 tree) # ?bs'"
    using first_batches [OF r] by (simp add: chunkSize_def)
  with len have len': "length ?bs' = 1" by simp
  have r': "snd (ingest sample_lib (Suc chunkSize) (drop (Suc chunkSize) ?fs) []) = Inr rem"
    by (rule first_window_runs [OF r]) (simp add: chunkSize_def)
  have period: "to_next (Suc chunkSize) = chunkSize" by (rule to_next_after_flush) simp
  from len' have pos: "0 < length ?bs'" by simp
  from later_batches [OF r' period pos]
  have "?bs' ! 0 = points sample_lib (no_geometry # replicate 499 tree)" by (simp add: chunkSize_def)
  with singleton_nth [OF len']
  have second: "?bs' = [points sample_lib (no_geometry # replicate 499 tree)]" by simp
  have l1: "length (points sample_lib (replicate 501 tree)) = 501"
    by (simp add: length_points_replicate sample_throws sample_guard)
  have l2: "length (points sample_lib (no_geometry # replicate 499 tree)) = 499"
    by (simp add: points_Cons sample_pushed length_points_replicate sample_throws sample_guard)
  have total: "length (points sample_lib ?fs) = 1001"
    by (simp add: points_append points_Cons sample_pushed length_points_replicate
          sample_throws sample_guard)
  from ingest_handed [OF r] have "length (handed ?es) + length rem = length (points sample_lib ?fs)"
    by (metis append_Nil length_append)
  with total l1 l2 first second have l3: "length rem = 1"
    by (simp add: handed_concat_batches)
  then have "rem \<noteq> []" by auto
  with acc log l1 l2 l3 first second show ?thesis
    by (simp add: new_effects_def)
qed


section \<open>What a call of \<open>loadDistrict\<close> changes\<close>

lemma fetches_simps [simp]:
  "fetches [] = []"
  "fetches (AddLayers b # es) = fetches es"
  "fetches (YieldToMain # es) = fetches es"
  "fetches (Fetch u # es) = u # fetches es"
  "fetches (Progress a t # es) = fetches es"
  "fetches (AddLayersThrew b # es) = fetches es"
  "fetches (es @ es') = fetches es @ fetches es'"
  by (simp_all add: fetches_def)

lemma fetches_ingest [simp]: "fetches (fst (ingest lib i fs buf)) = []"
proof (induction fs arbitrary: i buf)
  case Nil
  show ?case by simp
next
  case (Cons f fs)
  show ?case
  proof (cases "circleMarker_of lib f")
    case (Inl e)
    then show ?thesis by simp
  next
    case (Inr m)
    show ?thesis
    proof (cases "i > 0 \<and> i mod chunkSize = 0")
      case False
      with Inr Cons.IH show ?thesis by (simp add: ingest_Cons_keep)
    next
      case True
      with Inr Cons.IH show ?thesis
        by (cases "adds lib (buf @ (case m of Some mk \<Rightarrow> [mk] | None \<Rightarrow> []))")
           (simp_all add: ingest_Cons_flush ingest_Cons_refused)
    qed
  qed
qed

lemma succeeds_iff:
  "succeeds lib r \<longleftrightarrow> (\<exists>status features. r = Response status (Collection features) \<and> ok status
      \<and> ingests lib features)"
  by (cases r rule: failed.cases) auto

lemma failed_not_succeeds: "failed r \<Longrightarrow> \<not> succeeds lib r"
  by (cases r rule: failed.cases) auto

lemma loadDistrict_cases:
  assumes "code d \<notin> set (loadedDistricts s)"
  obtains (stays) es where "loadDistrict lib net d s = perform (Fetch (url_of d) # es) s"
      and "fetches es = []" and "\<not> succeeds lib (net (length (effects s)) (url_of d))"
  | (loads) es where "loadDistrict lib net d s = mark_loaded d (perform (Fetch (url_of d) # es) s)"
      and "fetches es = []" and "succeeds lib (net (length (effects s)) (url_of d))"
proof (cases "failed (net (length (effects s)) (url_of d))")
  case True
  then have "loadDistrict lib net d s = perform (Fetch (url_of d) # []) s"
    using assms by (simp add: loadDistrict_failed)
  then show thesis using True stays by (simp add: failed_not_succeeds)
next
  case False
  then obtain status features
    where r: "net (length (effects s)) (url_of d) = Response status (Collection features)" "ok status"
    by (cases "net (length (effects s)) (url_of d)" rule: failed.cases) auto
  note lc = loadDistrict_collection [of d s net status features lib, OF assms r]
  show thesis
  proof (cases "snd (ingest lib 0 features [])")
    case (Inl e)
    then have "loadDistrict lib net d s = perform (Fetch (url_of d) # fst (ingest lib 0 features [])) s"
      by (simp add: lc after_loop_Inl)
    moreover from Inl have "\<not> ingests lib features" by (simp add: ingests_def)
    ultimately show thesis using stays r by simp
  next
    case (Inr rem)
    show thesis
    proof (cases "rem = [] \<or> adds lib rem")
      case True
      with Inr have "loadDistrict lib net d s = mark_loaded d (perform
          (Fetch (url_of d) # (fst (ingest lib 0 features []) @ (if rem \<noteq> [] then [AddLayers rem] else []))) s)"
        by (simp add: lc after_loop_Inr perform_perform)
      moreover from True Inr have "ingests lib features" by (simp add: ingests_def)
      ultimately show thesis
        using loads [of "fst (ingest lib 0 features []) @ (if rem \<noteq> [] then [AddLayers rem] else [])"] r
        by simp
    next
      case False
      with Inr have "loadDistrict lib net d s = perform
          (Fetch (url_of d) # (fst (ingest lib 0 features []) @ [AddLayersThrew rem])) s"
        by (simp add: lc after_loop_refused perform_perform)
      moreover from False Inr have "\<not> ingests lib features" by (simp add: ingests_def)
      ultimately show thesis
        using stays [of "fst (ingest lib 0 features []) @ [AddLayersThrew rem]"] r by simp
    qed
  qed
qed

lemma new_effects_perform [simp]: "new_effects s (perform es s) = es"
  by (simp add: new_effects_def)

lemma new_effects_mark [simp]: "new_effects s (mark_loaded d s') = new_effects s s'"
  by (simp add: new_effects_def)

lemma new_effects_self [simp]: "new_effects s s = []"
  by (simp add: new_effects_def)

lemma loadDistrict_prefix:
  "effects (loadDistrict lib net d s) = effects s @ new_effects s (loadDistrict lib net d s)"
proof (cases "code d \<in> set (loadedDistricts s)")
  case True
  then show ?thesis by (simp add: loadDistrict_resident)
next
  case False
  show ?thesis by (rule loadDistrict_cases [OF False, where net = net and lib = lib]) (simp_all add: False)
qed

lemma loadDistrict_fetches:
  "fetches (new_effects s (loadDistrict lib net d s))
     = (if code d \<in> set (loadedDistricts s) then [] else [url_of d])"
proof (cases "code d \<in> set (loadedDistricts s)")
  case True
  then show ?thesis by (simp add: loadDistrict_resident)
next
  case False
  show ?thesis by (rule loadDistrict_cases [OF False, where net = net and lib = lib]) (simp_all add: False)
qed

lemma loadDistrict_loaded:
  "set (loadedDistricts (loadDistrict lib net d s))
     = set (loadedDistricts s) \<union>
       (if code d \<notin> set (loadedDistricts s) \<and> succeeds lib (net (length (effects s)) (url_of d))
        then {code d} else {})"
proof (cases "code d \<in> set (loadedDistricts s)")
  case True
  then show ?thesis by (simp add: loadDistrict_resident)
next
  case False
  show ?thesis by (rule loadDistrict_cases [OF False, where net = net and lib = lib]) (simp_all add: False)
qed

lemma loadDistrict_flags [simp]:
  "isLoading (loadDistrict lib net d s) = isLoading s"
  "index (loadDistrict lib net d s) = index s"
proof -
  show "isLoading (loadDistrict lib net d s) = isLoading s"
  proof (cases "code d \<in> set (loadedDistricts s)")
    case True
    then show ?thesis by (simp add: loadDistrict_resident)
  next
    case False
    show ?thesis by (rule loadDistrict_cases [OF False, where net = net and lib = lib]) (simp_all add: False)
  qed
  show "index (loadDistrict lib net d s) = index s"
  proof (cases "code d \<in> set (loadedDistricts s)")
    case True
    then show ?thesis by (simp add: loadDistrict_resident)
  next
    case False
    show ?thesis by (rule loadDistrict_cases [OF False, where net = net and lib = lib]) (simp_all add: False)
  qed
qed


section \<open>The load cycle\<close>

lemma loadDistrict_exn_eq: "loadDistrict_exn lib net d s = (loadDistrict lib net d s, None)"
  by (simp add: loadDistrict_def loadDistrict_exn_def split: prod.splits option.splits)

lemma report_simps [simp]:
  "effects (report s) = effects s @ [Progress (length (loadedDistricts s)) (total_of s), YieldToMain]"
  "loadedDistricts (report s) = loadedDistricts s"
  "isLoading (report s) = isLoading s"
  "index (report s) = index s"
  by (simp_all add: report_def)

lemma load_loop_Cons:
  "load_loop lib net (d # rest) s =
     (if code d \<notin> set (loadedDistricts s)
      then load_loop lib net rest (report (loadDistrict lib net d s))
      else load_loop lib net rest s)"
  by (simp add: loadDistrict_exn_eq)

declare load_loop.simps(2) [simp del]

lemma load_loop_no_exception: "snd (load_loop lib net ds s) = None"
  by (induction ds arbitrary: s) (simp_all add: load_loop_Cons)

lemma load_loop_flags [simp]:
  "isLoading (fst (load_loop lib net ds s)) = isLoading s"
  "index (fst (load_loop lib net ds s)) = index s"
  by (induction ds arbitrary: s) (simp_all add: load_loop_Cons)

lemma new_effects_trans:
  "effects s1 = effects s @ a \<Longrightarrow> effects s2 = effects s1 @ b \<Longrightarrow> new_effects s s2 = a @ b"
  by (simp add: new_effects_def)

lemma report_loadDistrict_prefix:
  "effects (report (loadDistrict lib net d s)) =
     effects s @ (new_effects s (loadDistrict lib net d s)
        @ [Progress (length (loadedDistricts (loadDistrict lib net d s))) (total_of (loadDistrict lib net d s)),
           YieldToMain])"
  using loadDistrict_prefix [of lib net d s] by simp

lemma load_loop_prefix:
  "effects (fst (load_loop lib net ds s)) = effects s @ new_effects s (fst (load_loop lib net ds s))"
proof (induction ds arbitrary: s)
  case Nil
  show ?case by simp
next
  case (Cons d rest)
  show ?case
  proof (cases "code d \<in> set (loadedDistricts s)")
    case True
    then show ?thesis using Cons.IH [of s] by (simp add: load_loop_Cons)
  next
    case False
    let ?s1 = "report (loadDistrict lib net d s)"
    let ?s2 = "fst (load_loop lib net rest ?s1)"
    from new_effects_trans [OF report_loadDistrict_prefix Cons.IH [of ?s1]]
    have "new_effects s ?s2 = (new_effects s (loadDistrict lib net d s)
        @ [Progress (length (loadedDistricts (loadDistrict lib net d s))) (total_of (loadDistrict lib net d s)),
           YieldToMain]) @ new_effects ?s1 ?s2" .
    then have "effects s @ new_effects s ?s2 = effects ?s1 @ new_effects ?s1 ?s2"
      using report_loadDistrict_prefix [of lib net d s] by simp
    then show ?thesis using False Cons.IH [of ?s1] by (simp add: load_loop_Cons)
  qed
qed

lemma load_loop_new_effects_Cons:
  "code d \<notin> set (loadedDistricts s) \<Longrightarrow>
   new_effects s (fst (load_loop lib net (d # rest) s)) =
     new_effects s (loadDistrict lib net d s)
       @ [Progress (length (loadedDistricts (loadDistrict lib net d s))) (total_of (loadDistrict lib net d s)),
          YieldToMain]
       @ new_effects (report (loadDistrict lib net d s))
           (fst (load_loop lib net rest (report (loadDistrict lib net d s))))"
  using new_effects_trans [OF report_loadDistrict_prefix [of lib net d s]
      load_loop_prefix [of lib net rest "report (loadDistrict lib net d s)"]]
  by (simp add: load_loop_Cons)

lemma load_loop_fetches_Cons:
  "code d \<notin> set (loadedDistricts s) \<Longrightarrow>
   fetches (new_effects s (fst (load_loop lib net (d # rest) s))) =
     url_of d # fetches (new_effects (report (loadDistrict lib net d s))
           (fst (load_loop lib net rest (report (loadDistrict lib net d s)))))"
  by (simp add: load_loop_new_effects_Cons loadDistrict_fetches)

lemma load_loop_loaded:
  "set (loadedDistricts (fst (load_loop lib (\<lambda>t. env) ds s)))
     = set (loadedDistricts s) \<union> code ` {d \<in> set ds. succeeds lib (env (url_of d))}"
proof (induction ds arbitrary: s)
  case Nil
  show ?case by simp
next
  case (Cons d rest)
  show ?case
  proof (cases "code d \<in> set (loadedDistricts s)")
    case True
    then show ?thesis using Cons.IH [of s] by (auto simp: load_loop_Cons)
  next
    case False
    then show ?thesis using Cons.IH [of "report (loadDistrict lib (\<lambda>t. env) d s)"]
      by (auto simp: load_loop_Cons loadDistrict_loaded)
  qed
qed

lemma load_loop_monotone:
  "set (loadedDistricts s) \<subseteq> set (loadedDistricts (fst (load_loop lib net ds s)))"
proof (induction ds arbitrary: s)
  case Nil
  show ?case by simp
next
  case (Cons d rest)
  show ?case
  proof (cases "code d \<in> set (loadedDistricts s)")
    case True
    then show ?thesis using Cons.IH [of s] by (simp add: load_loop_Cons)
  next
    case False
    then show ?thesis using Cons.IH [of "report (loadDistrict lib net d s)"]
      by (auto simp: load_loop_Cons loadDistrict_loaded)
  qed
qed


lemma load_loop_fetches_subset:
  "set (fetches (new_effects s (fst (load_loop lib net ds s))))
     \<subseteq> url_of ` {d \<in> set ds. code d \<notin> set (loadedDistricts s)}"
proof (induction ds arbitrary: s)
  case Nil
  show ?case by simp
next
  case (Cons d rest)
  show ?case
  proof (cases "code d \<in> set (loadedDistricts s)")
    case True
    then show ?thesis using Cons.IH [of s] by (auto simp: load_loop_Cons)
  next
    case False
    let ?s1 = "report (loadDistrict lib net d s)"
    have "set (loadedDistricts s) \<subseteq> set (loadedDistricts ?s1)"
      by (simp add: loadDistrict_loaded)
    then have "{d' \<in> set rest. code d' \<notin> set (loadedDistricts ?s1)}
        \<subseteq> {d' \<in> set rest. code d' \<notin> set (loadedDistricts s)}" by blast
    with Cons.IH [of ?s1]
    have "set (fetches (new_effects ?s1 (fst (load_loop lib net rest ?s1))))
        \<subseteq> url_of ` {d' \<in> set rest. code d' \<notin> set (loadedDistricts s)}" by blast
    then show ?thesis using False by (auto simp: load_loop_fetches_Cons)
  qed
qed

lemma load_loop_attempted:
  "d \<in> set ds \<Longrightarrow> code d \<notin> set (loadedDistricts (fst (load_loop lib net ds s))) \<Longrightarrow>
   url_of d \<in> set (fetches (new_effects s (fst (load_loop lib net ds s))))"
proof (induction ds arbitrary: s)
  case Nil
  then show ?case by simp
next
  case (Cons d0 rest)
  show ?case
  proof (cases "code d0 \<in> set (loadedDistricts s)")
    case True
    with Cons.prems(2) load_loop_monotone [of s lib net "d0 # rest"] have "d \<noteq> d0" by auto
    with Cons.prems(1) have "d \<in> set rest" by simp
    then show ?thesis using Cons.IH [of s] Cons.prems(2) True by (simp add: load_loop_Cons)
  next
    case False
    show ?thesis
    proof (cases "d = d0")
      case True
      then show ?thesis using False by (simp add: load_loop_fetches_Cons)
    next
      case neq: False
      with Cons.prems(1) have in_rest: "d \<in> set rest" by simp
      have "code d \<notin> set (loadedDistricts (fst (load_loop lib net rest (report (loadDistrict lib net d0 s)))))"
        using Cons.prems(2) False by (simp add: load_loop_Cons)
      from Cons.IH [OF in_rest this] show ?thesis
        using False by (simp add: load_loop_fetches_Cons)
    qed
  qed
qed

lemma load_loop_all_requested:
  "distinct (map code ds) \<Longrightarrow> d \<in> set ds \<Longrightarrow> code d \<notin> set (loadedDistricts s) \<Longrightarrow>
   url_of d \<in> set (fetches (new_effects s (fst (load_loop lib net ds s))))"
proof (induction ds arbitrary: s)
  case Nil
  then show ?case by simp
next
  case (Cons d0 rest)
  show ?case
  proof (cases "code d0 \<in> set (loadedDistricts s)")
    case True
    with Cons.prems(3) have "d \<noteq> d0" by auto
    with Cons.prems(2) have "d \<in> set rest" by simp
    then show ?thesis using Cons.IH [of s] Cons.prems True by (simp add: load_loop_Cons)
  next
    case False
    show ?thesis
    proof (cases "d = d0")
      case True
      then show ?thesis using False by (simp add: load_loop_fetches_Cons)
    next
      case neq: False
      with Cons.prems(2) have in_rest: "d \<in> set rest" by simp
      from Cons.prems(1) have "code d0 \<notin> set (map code rest)" by simp
      moreover from in_rest have "code d \<in> set (map code rest)" by simp
      ultimately have "code d \<noteq> code d0" by metis
      with Cons.prems(3) have "code d \<notin> set (loadedDistricts (report (loadDistrict lib net d0 s)))"
        by (simp add: loadDistrict_loaded)
      then show ?thesis
        using Cons.IH [of "report (loadDistrict lib net d0 s)"] Cons.prems(1) in_rest False
        by (simp add: load_loop_fetches_Cons)
    qed
  qed
qed

lemma getVisibleDistricts_flag [simp]:
  "getVisibleDistricts bounds zoom (s\<lparr>isLoading := b\<rparr>) = getVisibleDistricts bounds zoom s"
  by (simp add: getVisibleDistricts_def)

lemma loadVisibleDistricts_busy:
  "isLoading s \<Longrightarrow> loadVisibleDistricts lib net bounds zoom s = s"
  by (simp add: loadVisibleDistricts_def loadVisibleDistricts_exn_def)

lemma load_loop_pair: "load_loop lib net ds s = (fst (load_loop lib net ds s), None)"
  using load_loop_no_exception [of lib net ds s] by (metis prod.collapse)

lemma loadVisibleDistricts_exn_idle:
  "\<not> isLoading s \<Longrightarrow>
   loadVisibleDistricts_exn lib net bounds zoom s =
     ((fst (load_loop lib net (getVisibleDistricts bounds zoom s) (s\<lparr>isLoading := True\<rparr>)))\<lparr>isLoading := False\<rparr>,
      None)"
proof -
  assume idle: "\<not> isLoading s"
  have "loadVisibleDistricts_exn lib net bounds zoom s =
      (case load_loop lib net (getVisibleDistricts bounds zoom s) (s\<lparr>isLoading := True\<rparr>) of
         (s2, Some e) \<Rightarrow> (s2, Some e)
       | (s2, None) \<Rightarrow> (s2\<lparr>isLoading := False\<rparr>, None))"
    using idle by (simp add: loadVisibleDistricts_exn_def Let_def)
  also have "\<dots> = ((fst (load_loop lib net (getVisibleDistricts bounds zoom s)
      (s\<lparr>isLoading := True\<rparr>)))\<lparr>isLoading := False\<rparr>, None)"
    by (subst load_loop_pair) simp
  finally show ?thesis .
qed

lemma loadVisibleDistricts_idle:
  "\<not> isLoading s \<Longrightarrow>
   loadVisibleDistricts lib net bounds zoom s =
     (fst (load_loop lib net (getVisibleDistricts bounds zoom s) (s\<lparr>isLoading := True\<rparr>)))\<lparr>isLoading := False\<rparr>"
  by (simp add: loadVisibleDistricts_def loadVisibleDistricts_exn_idle)

lemma loadVisibleDistricts_no_exception:
  "snd (loadVisibleDistricts_exn lib net bounds zoom s) = None"
  by (cases "isLoading s") (simp_all add: loadVisibleDistricts_exn_idle, simp add: loadVisibleDistricts_exn_def)

lemma new_effects_flags [simp]:
  "new_effects (s\<lparr>isLoading := b\<rparr>) s' = new_effects s s'"
  "new_effects s (s'\<lparr>isLoading := b\<rparr>) = new_effects s s'"
  by (simp_all add: new_effects_def)


section \<open>Resident shards, failing shards\<close>

lemma loadVisibleDistricts_fetches_subset:
  "set (fetches (new_effects s (loadVisibleDistricts lib net bounds zoom s)))
     \<subseteq> url_of ` {d \<in> set (getVisibleDistricts bounds zoom s). code d \<notin> set (loadedDistricts s)}"
proof (cases "isLoading s")
  case True
  then show ?thesis by (simp add: loadVisibleDistricts_busy)
next
  case False
  then show ?thesis
    using load_loop_fetches_subset [of "s\<lparr>isLoading := True\<rparr>" lib net "getVisibleDistricts bounds zoom s"]
    by (simp add: loadVisibleDistricts_idle)
qed

text \<open>
  C5. For a shard that is resident \<open>loadDistrict\<close> returns at once: no request, no
  change. Every request that a call of \<open>loadVisibleDistricts\<close> issues is for a shard of
  the catalog that was not resident when the call began, so none is issued for a
  resident shard. And after a load that made the shard resident, loading it again
  changes nothing: the number of points handed to the layer is that of the single load.
\<close>

theorem resident_shard_not_refetched:
  "(code d \<in> set (loadedDistricts s) \<longrightarrow> loadDistrict lib net d s = s)
   \<and> (\<forall>u \<in> set (fetches (new_effects s (loadVisibleDistricts lib net bounds zoom s))).
         \<exists>d' \<in> set (getVisibleDistricts bounds zoom s).
            u = url_of d' \<and> code d' \<notin> set (loadedDistricts s))
   \<and> (code d \<in> set (loadedDistricts (loadDistrict lib net d s)) \<longrightarrow>
         loadDistrict lib net' d (loadDistrict lib net d s) = loadDistrict lib net d s
       \<and> length (handed (effects (loadDistrict lib net' d (loadDistrict lib net d s))))
           = length (handed (effects (loadDistrict lib net d s))))"
proof (intro conjI impI ballI)
  assume "code d \<in> set (loadedDistricts s)"
  then show "loadDistrict lib net d s = s" by (rule loadDistrict_resident)
next
  fix u
  assume "u \<in> set (fetches (new_effects s (loadVisibleDistricts lib net bounds zoom s)))"
  with loadVisibleDistricts_fetches_subset [of s lib net bounds zoom]
  show "\<exists>d' \<in> set (getVisibleDistricts bounds zoom s).
            u = url_of d' \<and> code d' \<notin> set (loadedDistricts s)"
    by blast
next
  assume "code d \<in> set (loadedDistricts (loadDistrict lib net d s))"
  then show "loadDistrict lib net' d (loadDistrict lib net d s) = loadDistrict lib net d s"
    by (rule loadDistrict_resident)
next
  assume "code d \<in> set (loadedDistricts (loadDistrict lib net d s))"
  then have "loadDistrict lib net' d (loadDistrict lib net d s) = loadDistrict lib net d s"
    by (rule loadDistrict_resident)
  then show "length (handed (effects (loadDistrict lib net' d (loadDistrict lib net d s))))
           = length (handed (effects (loadDistrict lib net d s)))"
    by simp
qed


lemma sample_urls [simp]:
  "url_of shard1 \<noteq> url_of shard2" "url_of shard2 \<noteq> url_of shard1"
  "code shard1 = ''01''" "code shard2 = ''02''"
  by (simp_all add: url_of_def shard1_def shard2_def)

lemma two_files_simps [simp]:
  "two_files t (url_of shard1) = Response 200 (Collection (replicate 3 tree))"
  "two_files t (url_of shard2) = Response 200 (Collection (replicate 5 tree))"
  "shard1_down t (url_of shard1) = Response 500 Unparsable"
  "shard1_down t (url_of shard2) = Response 200 (Collection (replicate 5 tree))"
  by (simp_all add: two_files_def shard1_down_def serve_def)

lemma getVisibleDistricts_two_shards [simp]:
  "index s = Some two_shards \<Longrightarrow> getVisibleDistricts bounds zoom s = [shard1, shard2]"
  by (simp add: getVisibleDistricts_def two_shards_def)

theorem resident_shard_not_refetched_witness:
  "code shard1 \<in> set (loadedDistricts (loadDistrict sample_lib two_files shard1 (fresh (Some two_shards))))
   \<and> loadDistrict sample_lib shard1_down shard1 (loadDistrict sample_lib two_files shard1 (fresh (Some two_shards)))
       = loadDistrict sample_lib two_files shard1 (fresh (Some two_shards))
   \<and> length (handed (effects
        (loadDistrict sample_lib shard1_down shard1 (loadDistrict sample_lib two_files shard1 (fresh (Some two_shards))))))
       = 3
   \<and> url_of shard1 \<notin> set (fetches (new_effects
        (loadDistrict sample_lib two_files shard1 (fresh (Some two_shards)))
        (loadVisibleDistricts sample_lib two_files madrid 12
           (loadDistrict sample_lib two_files shard1 (fresh (Some two_shards))))))"
proof -
  let ?s0 = "fresh (Some two_shards)"
  let ?s1 = "loadDistrict sample_lib two_files shard1 ?s0"
  have nt: "ingests sample_lib (replicate 3 tree)"
    by (rule sample_lib_runs) (simp add: sample_throws sample_pushed)
  have res: "code shard1 \<in> set (loadedDistricts ?s1)"
    by (simp add: loadDistrict_loaded nt)
  have three: "length (handed (effects ?s1)) = 3"
    using loadDistrict_handed(1) [of shard1 ?s0 two_files 200 "replicate 3 tree" sample_lib] nt
    by (simp add: length_points_replicate sample_throws sample_guard)
  note t0 = resident_shard_not_refetched [where d = shard1 and s = ?s0 and net = two_files and net' = shard1_down
      and bounds = madrid and zoom = 12 and lib = sample_lib]
  from t0 res have same: "loadDistrict sample_lib shard1_down shard1 ?s1 = ?s1"
    and count: "length (handed (effects (loadDistrict sample_lib shard1_down shard1 ?s1)))
        = length (handed (effects ?s1))"
    by blast+
  note t1 = resident_shard_not_refetched [where d = shard1 and s = ?s1 and net = two_files and net' = two_files
      and bounds = madrid and zoom = 12 and lib = sample_lib]
  have "url_of shard1 \<notin> set (fetches (new_effects ?s1 (loadVisibleDistricts sample_lib two_files madrid 12 ?s1)))"
  proof
    assume "url_of shard1 \<in> set (fetches (new_effects ?s1 (loadVisibleDistricts sample_lib two_files madrid 12 ?s1)))"
    with t1 obtain d' where d': "d' \<in> set (getVisibleDistricts madrid 12 ?s1)"
      "url_of shard1 = url_of d'" "code d' \<notin> set (loadedDistricts ?s1)"
      by blast
    from d'(1) have "d' = shard1 \<or> d' = shard2" by simp
    with d'(2) have "d' = shard1" by auto
    with d'(3) res show False by simp
  qed
  with res same count three show ?thesis by simp
qed


lemma getVisibleDistricts_index:
  "index s = Some idx \<Longrightarrow> getVisibleDistricts bounds zoom s = districts idx"
  by (simp add: getVisibleDistricts_def)

text \<open>
  C3. From a state in which no cycle runs and the catalog is loaded: no exception leaves
  \<open>loadDistrict\<close> or \<open>loadVisibleDistricts\<close>; the cycle ends with the flag cleared and the
  catalog in place, so that a later call runs a cycle again; under a network \<open>env\<close> the
  resident set after the cycle is the one before it together with the codes of the
  shards whose request succeeds, wherever the failing shards stand in the catalog; a
  shard that is not resident after the cycle has been requested in it; and, the codes
  of the catalog being distinct, every shard that is not resident when a cycle begins
  is requested in it, whatever happened to it in earlier cycles.
\<close>

theorem shard_failure_is_not_fatal:
  assumes "\<not> isLoading s" and "index s = Some idx"
  shows "snd (loadDistrict_exn lib net d s) = None
       \<and> snd (loadVisibleDistricts_exn lib net bounds zoom s) = None
       \<and> \<not> isLoading (loadVisibleDistricts lib net bounds zoom s)
       \<and> index (loadVisibleDistricts lib net bounds zoom s) = Some idx
       \<and> set (loadedDistricts (loadVisibleDistricts lib (\<lambda>t. env) bounds zoom s))
           = set (loadedDistricts s) \<union> code ` {d \<in> set (districts idx). succeeds lib (env (url_of d))}
       \<and> (\<forall>d \<in> set (districts idx).
             code d \<notin> set (loadedDistricts (loadVisibleDistricts lib net bounds zoom s)) \<longrightarrow>
             url_of d \<in> set (fetches (new_effects s (loadVisibleDistricts lib net bounds zoom s))))
       \<and> (distinct (map code (districts idx)) \<longrightarrow>
            (\<forall>d \<in> set (districts idx).
               code d \<notin> set (loadedDistricts s) \<longrightarrow>
               url_of d \<in> set (fetches (new_effects s (loadVisibleDistricts lib net bounds zoom s)))))"
proof -
  let ?ds = "districts idx"
  let ?s1 = "s\<lparr>isLoading := True\<rparr>"
  have v: "\<And>b z. getVisibleDistricts b z s = ?ds" using assms(2) by (simp add: getVisibleDistricts_index)
  have run: "\<And>n. loadVisibleDistricts lib n bounds zoom s = (fst (load_loop lib n ?ds ?s1))\<lparr>isLoading := False\<rparr>"
    using assms(1) by (simp add: loadVisibleDistricts_idle v)
  have 1: "snd (loadDistrict_exn lib net d s) = None" by (simp add: loadDistrict_exn_eq)
  have 2: "snd (loadVisibleDistricts_exn lib net bounds zoom s) = None"
    by (rule loadVisibleDistricts_no_exception)
  have 3: "\<not> isLoading (loadVisibleDistricts lib net bounds zoom s)" by (simp add: run)
  have 4: "index (loadVisibleDistricts lib net bounds zoom s) = Some idx" using assms(2) by (simp add: run)
  have 5: "set (loadedDistricts (loadVisibleDistricts lib (\<lambda>t. env) bounds zoom s))
           = set (loadedDistricts s) \<union> code ` {d \<in> set ?ds. succeeds lib (env (url_of d))}"
    using load_loop_loaded [of lib env ?ds ?s1] by (simp add: run)
  have 6: "\<forall>d \<in> set ?ds.
             code d \<notin> set (loadedDistricts (loadVisibleDistricts lib net bounds zoom s)) \<longrightarrow>
             url_of d \<in> set (fetches (new_effects s (loadVisibleDistricts lib net bounds zoom s)))"
    using load_loop_attempted [of _ ?ds lib net ?s1] by (simp add: run)
  have 7: "distinct (map code ?ds) \<longrightarrow>
            (\<forall>d \<in> set ?ds.
               code d \<notin> set (loadedDistricts s) \<longrightarrow>
               url_of d \<in> set (fetches (new_effects s (loadVisibleDistricts lib net bounds zoom s))))"
    using load_loop_all_requested [of ?ds _ ?s1 lib net] by (simp add: run)
  from 1 2 3 4 5 6 7 show ?thesis by blast
qed


lemma static_networks:
  "shard1_down = (\<lambda>t. shard1_down 0)" "two_files = (\<lambda>t. two_files 0)"
  by (simp_all add: shard1_down_def two_files_def serve_def fun_eq_iff)

lemma sample_succeeds:
  "\<not> succeeds sample_lib (shard1_down 0 (url_of shard1))" "succeeds sample_lib (shard1_down 0 (url_of shard2))"
  "succeeds sample_lib (two_files 0 (url_of shard1))" "succeeds sample_lib (two_files 0 (url_of shard2))"
  by (simp_all add: sample_lib_runs sample_throws sample_pushed)

lemma ingest_below_chunk:
  "\<forall>f \<in> set fs. \<not> throws lib f \<Longrightarrow> i + length fs \<le> chunkSize \<Longrightarrow>
   ingest lib i fs buf = ([], Inr (buf @ points lib fs))"
proof (induction fs arbitrary: i buf)
  case Nil
  show ?case by (simp add: points_def)
next
  case (Cons f fs)
  from Cons.prems(1) obtain m where m: "circleMarker_of lib f = Inr m"
    by (auto simp: not_throws_iff)
  from Cons.prems(2) have "i < chunkSize" by simp
  then have keep: "\<not> (i > 0 \<and> i mod chunkSize = 0)" by auto
  from Cons.prems have "ingest lib (Suc i) fs (buf @ (case m of Some mk \<Rightarrow> [mk] | None \<Rightarrow> []))
      = ([], Inr ((buf @ (case m of Some mk \<Rightarrow> [mk] | None \<Rightarrow> [])) @ points lib fs))"
    by (intro Cons.IH) simp_all
  then show ?case using m keep by (simp add: ingest_Cons_keep points_Cons pushed_by_Inr)
qed

lemma ingest_short:
  "\<forall>f \<in> set fs. \<not> throws lib f \<Longrightarrow> length fs \<le> chunkSize \<Longrightarrow>
   ingest lib 0 fs [] = ([], Inr (points lib fs))"
  using ingest_below_chunk [of fs lib 0 "[]"] by simp

lemma points_replicate_valid:
  "pushed_by lib x = [m] \<Longrightarrow> points lib (replicate n x) = replicate n m"
  by (induction n) (simp_all add: points_def)

lemma ingest_few:
  "ingest lib 0 (replicate 5 tree) [] = ([], Inr (replicate 5 \<lparr> latlng = (JNum 40.41, JNum (-3.70)), props = JObj [] \<rparr>))"
  by (simp add: ingest_short sample_throws chunkSize_def points_replicate_valid [OF sample_pushed(1)])


lemma fresh_two_shards:
  "fresh (Some two_shards) =
     \<lparr> index = Some two_shards, loadedDistricts = [], districtLayers = Map.empty,
       isLoading = False, effects = [] \<rparr>"
  by (simp add: fresh_def initial_def)

lemma loadDistrict_down:
  "code shard1 \<notin> set (loadedDistricts s) \<Longrightarrow>
   loadDistrict sample_lib shard1_down shard1 s = perform [Fetch (url_of shard1)] s"
  by (simp add: loadDistrict_failed)

lemma loadDistrict_five:
  "code shard2 \<notin> set (loadedDistricts s) \<Longrightarrow>
   loadDistrict sample_lib shard1_down shard2 s =
     mark_loaded shard2 (perform [Fetch (url_of shard2),
        AddLayers (replicate 5 \<lparr> latlng = (JNum 40.41, JNum (-3.70)), props = JObj [] \<rparr>)] s)"
  by (simp add: loadDistrict_collection [of shard2 s shard1_down 200 "replicate 5 tree"]
        ingest_few after_loop_def perform_perform list_all_iff)

text \<open>
  Scenario B of the specification: the first of two shards answers with status 500.
\<close>

lemma scenario_B:
  "loadVisibleDistricts sample_lib shard1_down madrid 12 (fresh (Some two_shards)) =
     \<lparr> index = Some two_shards, loadedDistricts = [''02''],
       districtLayers = [''02'' \<mapsto> True], isLoading = False,
       effects = [Fetch ''./data/districts/district_01.json'', Progress 0 2, YieldToMain,
                  Fetch ''./data/districts/district_02.json'',
                  AddLayers (replicate 5 \<lparr> latlng = (JNum 40.41, JNum (-3.70)), props = JObj [] \<rparr>),
                  Progress 1 2, YieldToMain] \<rparr>"
  by (simp add: loadVisibleDistricts_idle load_loop_Cons loadDistrict_down loadDistrict_five)
     (simp add: fresh_def initial_def mark_loaded_def perform_def report_def set_add_def total_of_def
        two_shards_def url_of_def shard1_def shard2_def)


lemma two_shards_districts [simp]: "districts two_shards = [shard1, shard2]"
  by (simp add: two_shards_def)

theorem shard_failure_is_not_fatal_witness:
  "\<not> isLoading (fresh (Some two_shards)) \<and> index (fresh (Some two_shards)) = Some two_shards
   \<and> snd (loadVisibleDistricts_exn sample_lib shard1_down madrid 12 (fresh (Some two_shards))) = None
   \<and> set (loadedDistricts (loadVisibleDistricts sample_lib shard1_down madrid 12 (fresh (Some two_shards))))
       = {''02''}
   \<and> url_of shard1 \<in> set (fetches (new_effects (fresh (Some two_shards))
         (loadVisibleDistricts sample_lib shard1_down madrid 12 (fresh (Some two_shards)))))
   \<and> set (loadedDistricts (loadVisibleDistricts sample_lib two_files madrid 12
         (loadVisibleDistricts sample_lib shard1_down madrid 12 (fresh (Some two_shards)))))
       = {''01'', ''02''}
   \<and> url_of shard1 \<in> set (fetches (new_effects
         (loadVisibleDistricts sample_lib shard1_down madrid 12 (fresh (Some two_shards)))
         (loadVisibleDistricts sample_lib two_files madrid 12
            (loadVisibleDistricts sample_lib shard1_down madrid 12 (fresh (Some two_shards))))))"
proof -
  let ?s0 = "fresh (Some two_shards)"
  let ?s1 = "loadVisibleDistricts sample_lib shard1_down madrid 12 ?s0"
  let ?s2 = "loadVisibleDistricts sample_lib two_files madrid 12 ?s1"
  have h1: "\<not> isLoading ?s0" by simp
  have h2: "index ?s0 = Some two_shards" by simp
  have good: "{d \<in> set (districts two_shards). succeeds sample_lib (shard1_down 0 (url_of d))} = {shard2}"
    "{d \<in> set (districts two_shards). succeeds sample_lib (two_files 0 (url_of d))} = {shard1, shard2}"
    by (auto simp: sample_lib_runs sample_throws sample_pushed)
  note first = shard_failure_is_not_fatal [OF h1 h2, where net = shard1_down and env = "shard1_down 0"
      and bounds = madrid and zoom = 12 and d = shard1 and lib = sample_lib]
  have a: "snd (loadVisibleDistricts_exn sample_lib shard1_down madrid 12 ?s0) = None"
    using first by (elim conjE) assumption
  have k1: "\<not> isLoading ?s1" using first by (elim conjE) assumption
  have k2: "index ?s1 = Some two_shards" using first by (elim conjE) assumption
  have "set (loadedDistricts (loadVisibleDistricts sample_lib (\<lambda>t. shard1_down 0) madrid 12 ?s0))
      = set (loadedDistricts ?s0) \<union> code ` {d \<in> set (districts two_shards). succeeds sample_lib (shard1_down 0 (url_of d))}"
    using first by (elim conjE) assumption
  then have b: "set (loadedDistricts ?s1) = {''02''}"
    unfolding good by (simp add: static_networks(1) [symmetric])
  have "\<forall>d \<in> set (districts two_shards).
      code d \<notin> set (loadedDistricts ?s1) \<longrightarrow> url_of d \<in> set (fetches (new_effects ?s0 ?s1))"
    using first by (elim conjE) assumption
  with b have c: "url_of shard1 \<in> set (fetches (new_effects ?s0 ?s1))" by simp
  note second = shard_failure_is_not_fatal [OF k1 k2, where net = two_files and env = "two_files 0"
      and bounds = madrid and zoom = 12 and d = shard1 and lib = sample_lib]
  have "set (loadedDistricts (loadVisibleDistricts sample_lib (\<lambda>t. two_files 0) madrid 12 ?s1))
      = set (loadedDistricts ?s1) \<union> code ` {d \<in> set (districts two_shards). succeeds sample_lib (two_files 0 (url_of d))}"
    using second by (elim conjE) assumption
  then have d: "set (loadedDistricts ?s2) = {''01'', ''02''}"
    unfolding good using b by (simp add: static_networks(2) [symmetric] insert_commute)
  have "distinct (map code (districts two_shards)) \<longrightarrow>
      (\<forall>d \<in> set (districts two_shards).
         code d \<notin> set (loadedDistricts ?s1) \<longrightarrow> url_of d \<in> set (fetches (new_effects ?s1 ?s2)))"
    using second by (elim conjE) assumption
  with b have e: "url_of shard1 \<in> set (fetches (new_effects ?s1 ?s2))" by simp
  from h1 h2 a b c d e show ?thesis by (intro conjI)
qed


section \<open>Attribute resolution\<close>

lemma first_truthy_2:
  "first_truthy [a, b] = (if truthy a then Some a else if truthy b then Some b else None)"
  by (simp add: first_truthy_def)

lemma first_truthy_3:
  "first_truthy [a, b, c] =
     (if truthy a then Some a else if truthy b then Some b else if truthy c then Some c else None)"
  by (simp add: first_truthy_def)

lemma collect_Inr: "(\<exists>xs. collect rs = Inr xs) \<longleftrightarrow> (\<forall>r \<in> set rs. \<exists>x. r = Inr x)"
proof (induction rs)
  case Nil
  show ?case by simp
next
  case (Cons r rs)
  then show ?case by (cases r; cases "collect rs") auto
qed

lemma collect_map_Inr:
  "(\<exists>ys. collect (map f xs) = Inr ys) \<longleftrightarrow> (\<forall>x \<in> set xs. \<exists>y. f x = Inr y)"
  by (simp add: collect_Inr)

lemma collect_Inl: "collect rs = Inl e \<Longrightarrow> Inl e \<in> set rs"
proof (induction rs)
  case Nil
  then show ?case by simp
next
  case (Cons r rs)
  then show ?case by (cases r; cases "collect rs") auto
qed

text \<open>A template literal prints exactly the printable values, and fails with a TypeError only.\<close>

lemma js_string_printable: "(\<exists>t. js_string fmt v = Inr t) \<longleftrightarrow> printable v"
proof (induction v)
  case (JArr xs)
  let ?rs = "map (\<lambda>x. if x = JUndefined \<or> x = JNull then Inr [] else js_string fmt x) xs"
  have "(\<exists>t. js_string fmt (JArr xs) = Inr t) \<longleftrightarrow> (\<exists>ss. collect ?rs = Inr ss)"
    by (cases "collect ?rs") simp_all
  also have "\<dots> \<longleftrightarrow> (\<forall>x \<in> set xs. \<exists>t. (if x = JUndefined \<or> x = JNull then Inr [] else js_string fmt x) = Inr t)"
    by (rule collect_map_Inr)
  also have "\<dots> \<longleftrightarrow> (\<forall>x \<in> set xs. printable x)"
  proof (intro ball_cong refl)
    fix x
    assume x: "x \<in> set xs"
    show "(\<exists>t. (if x = JUndefined \<or> x = JNull then Inr [] else js_string fmt x) = Inr t) \<longleftrightarrow> printable x"
      using JArr [OF x] by auto
  qed
  finally show ?case by (simp add: list_all_iff)
qed simp_all

lemma js_string_TypeError: "js_string fmt v = Inl e \<Longrightarrow> e = TypeError"
proof (induction v)
  case (JArr xs)
  let ?rs = "map (\<lambda>x. if x = JUndefined \<or> x = JNull then Inr [] else js_string fmt x) xs"
  from JArr.prems have "collect ?rs = Inl e" by (cases "collect ?rs") simp_all
  then have "Inl e \<in> set ?rs" by (rule collect_Inl)
  then obtain x where "x \<in> set xs" "js_string fmt x = Inl e" by (auto split: if_splits)
  then show ?case by (rule JArr.IH)
qed (simp_all split: if_splits)

lemma with_unit_cases:
  "with_unit fmt v unit = (case js_string fmt v of Inl e \<Rightarrow> Inl e | Inr t \<Rightarrow> Inr (t @ unit))"
  by (simp add: with_unit_def)

lemma shown_iff:
  "(\<exists>t. (case c of Some v \<Rightarrow> with_unit fmt v u | None \<Rightarrow> Inr n) = Inr t)
     \<longleftrightarrow> (\<forall>v. c = Some v \<longrightarrow> printable v)"
proof (cases c)
  case None
  then show ?thesis by simp
next
  case (Some v)
  then show ?thesis using js_string_printable [of fmt v]
    by (cases "js_string fmt v") (simp_all add: with_unit_cases)
qed

lemma shown_TypeError:
  "(case c of Some v \<Rightarrow> with_unit fmt v u | None \<Rightarrow> Inr n) = Inl e \<Longrightarrow> e = TypeError"
proof (cases c)
  case None
  assume "(case c of Some v \<Rightarrow> with_unit fmt v u | None \<Rightarrow> Inr n) = Inl e"
  with None show ?thesis by simp
next
  case (Some v)
  assume "(case c of Some v \<Rightarrow> with_unit fmt v u | None \<Rightarrow> Inr n) = Inl e"
  with Some show ?thesis using js_string_TypeError [of fmt v e]
    by (cases "js_string fmt v") (simp_all add: with_unit_cases)
qed

text \<open>
  C8 (amended). The handler resolves its six values exactly when the first truthy
  candidate for the diameter and the first truthy candidate for the height, where
  there is one, can be printed, that is, is not an object with a member of its own
  named \<open>toString\<close> and not an array that holds one; otherwise it throws a TypeError
  and resolves nothing. When it resolves them, each attribute comes from the first
  candidate, in the fixed order with the short form first, whose value is truthy, that
  is, not \<open>undefined\<close>, \<open>null\<close>, \<open>false\<close>, \<open>0\<close> or the empty string. Species, common name,
  district and neighborhood are that value itself; diameter and height are that value
  printed and followed by \<open>cm\<close> or \<open>m\<close>. With no truthy candidate the value is
  \<open>Especie desconocida\<close> for the species, \<open>N/A\<close> for diameter and height, and the empty
  string for the others.
\<close>

theorem resolve_first_truthy:
  "((\<exists>info. resolve fmt p = Inr info) \<longleftrightarrow>
      (\<forall>v. first_truthy [get p ''d'', get p ''diameter''] = Some v
            \<or> first_truthy [get p ''h'', get p ''height''] = Some v \<longrightarrow> printable v))
   \<and> (resolve fmt p = Inl e \<longrightarrow> e = TypeError)
   \<and> (resolve fmt p = Inr info \<longrightarrow>
        species info =
          (case first_truthy [get p ''sn'', get p ''species'', get p nombre_cientifico] of
             Some v \<Rightarrow> v | None \<Rightarrow> JStr ''Especie desconocida'')
      \<and> commonName info =
          (case first_truthy [get p ''cn'', get p ''common_name'', get p ''CODIGO_ESP''] of
             Some v \<Rightarrow> v | None \<Rightarrow> JStr [])
      \<and> (case first_truthy [get p ''d'', get p ''diameter''] of
            Some v \<Rightarrow> \<exists>t. js_string fmt v = Inr t \<and> diameter info = t @ '' cm''
          | None \<Rightarrow> diameter info = ''N/A'')
      \<and> (case first_truthy [get p ''h'', get p ''height''] of
            Some v \<Rightarrow> \<exists>t. js_string fmt v = Inr t \<and> height info = t @ '' m''
          | None \<Rightarrow> height info = ''N/A'')
      \<and> district info =
          (case first_truthy [get p ''dt'', get p ''NBRE_DTO''] of
             Some v \<Rightarrow> v | None \<Rightarrow> JStr [])
      \<and> neighborhood info =
          (case first_truthy [get p ''nb'', get p ''NBRE_BARRI''] of
             Some v \<Rightarrow> v | None \<Rightarrow> JStr []))"
proof -
  let ?d = "first_truthy [get p ''d'', get p ''diameter'']"
  let ?h = "first_truthy [get p ''h'', get p ''height'']"
  let ?dt = "case ?d of Some v \<Rightarrow> with_unit fmt v '' cm'' | None \<Rightarrow> Inr ''N/A''"
  let ?ht = "case ?h of Some v \<Rightarrow> with_unit fmt v '' m'' | None \<Rightarrow> Inr ''N/A''"
  have d: "(if truthy (or_js (get p ''d'') (get p ''diameter''))
            then with_unit fmt (or_js (get p ''d'') (get p ''diameter'')) '' cm''
            else Inr ''N/A'') = ?dt"
    by (simp add: or_js_def first_truthy_2)
  have h: "(if truthy (or_js (get p ''h'') (get p ''height''))
            then with_unit fmt (or_js (get p ''h'') (get p ''height'')) '' m''
            else Inr ''N/A'') = ?ht"
    by (simp add: or_js_def first_truthy_2)
  have dp: "(\<exists>t. ?dt = Inr t) \<longleftrightarrow> (\<forall>v. ?d = Some v \<longrightarrow> printable v)"
    by (rule shown_iff)
  have hp: "(\<exists>t. ?ht = Inr t) \<longleftrightarrow> (\<forall>v. ?h = Some v \<longrightarrow> printable v)"
    by (rule shown_iff)
  have de: "\<And>e. ?dt = Inl e \<Longrightarrow> e = TypeError"
    by (rule shown_TypeError)
  have he: "\<And>e. ?ht = Inl e \<Longrightarrow> e = TypeError"
    by (rule shown_TypeError)
  have r: "resolve fmt p =
      (case ?dt of
         Inl e \<Rightarrow> Inl e
       | Inr diameter_text \<Rightarrow>
           (case ?ht of
              Inl e \<Rightarrow> Inl e
            | Inr height_text \<Rightarrow>
                Inr \<lparr> species = or_js (or_js (or_js (get p ''sn'') (get p ''species''))
                                              (get p nombre_cientifico))
                                       (JStr ''Especie desconocida''),
                      commonName = or_js (or_js (or_js (get p ''cn'') (get p ''common_name''))
                                                 (get p ''CODIGO_ESP''))
                                          (JStr []),
                      diameter = diameter_text,
                      height = height_text,
                      district = or_js (or_js (get p ''dt'') (get p ''NBRE_DTO'')) (JStr []),
                      neighborhood = or_js (or_js (get p ''nb'') (get p ''NBRE_BARRI'')) (JStr []) \<rparr>))"
    unfolding resolve_def d h ..
  have 1: "(\<exists>info. resolve fmt p = Inr info) \<longleftrightarrow> (\<forall>v. ?d = Some v \<or> ?h = Some v \<longrightarrow> printable v)"
  proof -
    have "(\<exists>info. resolve fmt p = Inr info) \<longleftrightarrow> (\<exists>t. ?dt = Inr t) \<and> (\<exists>t. ?ht = Inr t)"
      unfolding r by (cases ?dt; cases ?ht) simp_all
    then show ?thesis unfolding dp hp by blast
  qed
  have 2: "resolve fmt p = Inl e \<longrightarrow> e = TypeError"
    unfolding r using de he by (cases ?dt; cases ?ht) simp_all
  have 3: "resolve fmt p = Inr info \<longrightarrow>
        species info =
          (case first_truthy [get p ''sn'', get p ''species'', get p nombre_cientifico] of
             Some v \<Rightarrow> v | None \<Rightarrow> JStr ''Especie desconocida'')
      \<and> commonName info =
          (case first_truthy [get p ''cn'', get p ''common_name'', get p ''CODIGO_ESP''] of
             Some v \<Rightarrow> v | None \<Rightarrow> JStr [])
      \<and> (case ?d of
            Some v \<Rightarrow> \<exists>t. js_string fmt v = Inr t \<and> diameter info = t @ '' cm''
          | None \<Rightarrow> diameter info = ''N/A'')
      \<and> (case ?h of
            Some v \<Rightarrow> \<exists>t. js_string fmt v = Inr t \<and> height info = t @ '' m''
          | None \<Rightarrow> height info = ''N/A'')
      \<and> district info =
          (case first_truthy [get p ''dt'', get p ''NBRE_DTO''] of
             Some v \<Rightarrow> v | None \<Rightarrow> JStr [])
      \<and> neighborhood info =
          (case first_truthy [get p ''nb'', get p ''NBRE_BARRI''] of
             Some v \<Rightarrow> v | None \<Rightarrow> JStr [])"
  proof
    assume a: "resolve fmt p = Inr info"
    then obtain td th where td: "?dt = Inr td" and th: "?ht = Inr th"
      unfolding r by (cases ?dt; cases ?ht) simp_all
    from a td th have info: "info =
        \<lparr> species = or_js (or_js (or_js (get p ''sn'') (get p ''species'')) (get p nombre_cientifico))
                           (JStr ''Especie desconocida''),
          commonName = or_js (or_js (or_js (get p ''cn'') (get p ''common_name'')) (get p ''CODIGO_ESP''))
                              (JStr []),
          diameter = td, height = th,
          district = or_js (or_js (get p ''dt'') (get p ''NBRE_DTO'')) (JStr []),
          neighborhood = or_js (or_js (get p ''nb'') (get p ''NBRE_BARRI'')) (JStr []) \<rparr>"
      unfolding r by simp
    have dd: "case ?d of
            Some v \<Rightarrow> \<exists>t. js_string fmt v = Inr t \<and> td = t @ '' cm''
          | None \<Rightarrow> td = ''N/A''"
      using td by (cases ?d) (auto simp: with_unit_cases split: sum.splits)
    have hh: "case ?h of
            Some v \<Rightarrow> \<exists>t. js_string fmt v = Inr t \<and> th = t @ '' m''
          | None \<Rightarrow> th = ''N/A''"
      using th by (cases ?h) (auto simp: with_unit_cases split: sum.splits)
    have di: "diameter info = td" "height info = th" by (simp_all add: info)
    have s1: "species info =
          (case first_truthy [get p ''sn'', get p ''species'', get p nombre_cientifico] of
             Some v \<Rightarrow> v | None \<Rightarrow> JStr ''Especie desconocida'')"
      by (simp add: info or_js_def first_truthy_3)
    have s2: "commonName info =
          (case first_truthy [get p ''cn'', get p ''common_name'', get p ''CODIGO_ESP''] of
             Some v \<Rightarrow> v | None \<Rightarrow> JStr [])"
      by (simp add: info or_js_def first_truthy_3)
    have s3: "case ?d of
            Some v \<Rightarrow> \<exists>t. js_string fmt v = Inr t \<and> diameter info = t @ '' cm''
          | None \<Rightarrow> diameter info = ''N/A''"
      unfolding di by (rule dd)
    have s4: "case ?h of
            Some v \<Rightarrow> \<exists>t. js_string fmt v = Inr t \<and> height info = t @ '' m''
          | None \<Rightarrow> height info = ''N/A''"
      unfolding di by (rule hh)
    have s5: "district info =
          (case first_truthy [get p ''dt'', get p ''NBRE_DTO''] of
             Some v \<Rightarrow> v | None \<Rightarrow> JStr [])"
      by (simp add: info or_js_def first_truthy_2)
    have s6: "neighborhood info =
          (case first_truthy [get p ''nb'', get p ''NBRE_BARRI''] of
             Some v \<Rightarrow> v | None \<Rightarrow> JStr [])"
      by (simp add: info or_js_def first_truthy_2)
    from s1 s2 s3 s4 s5 s6
    show "species info =
          (case first_truthy [get p ''sn'', get p ''species'', get p nombre_cientifico] of
             Some v \<Rightarrow> v | None \<Rightarrow> JStr ''Especie desconocida'')
      \<and> commonName info =
          (case first_truthy [get p ''cn'', get p ''common_name'', get p ''CODIGO_ESP''] of
             Some v \<Rightarrow> v | None \<Rightarrow> JStr [])
      \<and> (case ?d of
            Some v \<Rightarrow> \<exists>t. js_string fmt v = Inr t \<and> diameter info = t @ '' cm''
          | None \<Rightarrow> diameter info = ''N/A'')
      \<and> (case ?h of
            Some v \<Rightarrow> \<exists>t. js_string fmt v = Inr t \<and> height info = t @ '' m''
          | None \<Rightarrow> height info = ''N/A'')
      \<and> district info =
          (case first_truthy [get p ''dt'', get p ''NBRE_DTO''] of
             Some v \<Rightarrow> v | None \<Rightarrow> JStr [])
      \<and> neighborhood info =
          (case first_truthy [get p ''nb'', get p ''NBRE_BARRI''] of
             Some v \<Rightarrow> v | None \<Rightarrow> JStr [])"
      by (intro conjI)
  qed
  from 1 2 3 show ?thesis by (intro conjI)
qed

lemma sample_resolve:
  "resolve sample_fmt long_forms =
     Inr \<lparr> species = JStr ''Quercus ilex'', commonName = JStr [], diameter = ''12 cm'',
           height = ''N/A'', district = JStr ''CENTRO'', neighborhood = JStr [] \<rparr>"
  "resolve sample_fmt no_attributes =
     Inr \<lparr> species = JStr ''Especie desconocida'', commonName = JStr [], diameter = ''N/A'',
           height = ''N/A'', district = JStr [], neighborhood = JStr [] \<rparr>"
  "resolve sample_fmt own_toString = Inl TypeError"
  "resolve sample_fmt zero_height =
     Inr \<lparr> species = JStr ''Quercus ilex'', commonName = JStr [], diameter = ''N/A'',
           height = ''N/A'', district = JStr [], neighborhood = JStr [] \<rparr>"
  "resolve sample_fmt zero_before_long =
     Inr \<lparr> species = JStr ''Especie desconocida'', commonName = JStr [], diameter = ''12 cm'',
           height = ''N/A'', district = JStr [], neighborhood = JStr [] \<rparr>"
  by (simp_all add: resolve_def with_unit_def or_js_def long_forms_def no_attributes_def
        own_toString_def zero_height_def zero_before_long_def sample_fmt_def nombre_cientifico_def)

theorem resolve_first_truthy_witness:
  "(\<exists>info. resolve sample_fmt long_forms = Inr info
       \<and> species info = JStr ''Quercus ilex''
       \<and> diameter info = ''12 cm''
       \<and> district info = JStr ''CENTRO'')
   \<and> (\<exists>info. resolve sample_fmt no_attributes = Inr info
       \<and> species info = JStr ''Especie desconocida''
       \<and> commonName info = JStr []
       \<and> diameter info = ''N/A''
       \<and> height info = ''N/A''
       \<and> district info = JStr []
       \<and> neighborhood info = JStr [])
   \<and> first_truthy [get own_toString ''d'', get own_toString ''diameter'']
        = Some (JObj [(''toString'', JNum 1)])
   \<and> \<not> printable (JObj [(''toString'', JNum 1)])
   \<and> resolve sample_fmt own_toString = Inl TypeError"
proof -
  let ?long = "\<lparr> species = JStr ''Quercus ilex'', commonName = JStr [], diameter = ''12 cm'',
           height = ''N/A'', district = JStr ''CENTRO'', neighborhood = JStr [] \<rparr>"
  let ?none = "\<lparr> species = JStr ''Especie desconocida'', commonName = JStr [], diameter = ''N/A'',
           height = ''N/A'', district = JStr [], neighborhood = JStr [] \<rparr>"
  note a = resolve_first_truthy [of sample_fmt long_forms _ ?long, THEN conjunct2, THEN conjunct2]
  note b = resolve_first_truthy [of sample_fmt no_attributes _ ?none, THEN conjunct2, THEN conjunct2]
  note c = resolve_first_truthy [of sample_fmt own_toString, THEN conjunct1]
  have ft: "first_truthy [get own_toString ''d'', get own_toString ''diameter'']
        = Some (JObj [(''toString'', JNum 1)])"
    by (simp add: first_truthy_2 own_toString_def)
  have np: "\<not> printable (JObj [(''toString'', JNum 1)])" by simp
  from c ft np have "\<not> (\<exists>info. resolve sample_fmt own_toString = Inr info)" by blast
  then obtain e where e: "resolve sample_fmt own_toString = Inl e"
    by (cases "resolve sample_fmt own_toString") auto
  with resolve_first_truthy [of sample_fmt own_toString e, THEN conjunct2, THEN conjunct1]
  have thrown: "resolve sample_fmt own_toString = Inl TypeError" by simp
  from a have "species ?long = JStr ''Quercus ilex'' \<and> diameter ?long = ''12 cm''
      \<and> district ?long = JStr ''CENTRO''"
    by (simp add: sample_resolve)
  moreover from b have "species ?none = JStr ''Especie desconocida'' \<and> commonName ?none = JStr []
      \<and> diameter ?none = ''N/A'' \<and> height ?none = ''N/A'' \<and> district ?none = JStr []
      \<and> neighborhood ?none = JStr []"
    by (simp add: sample_resolve)
  ultimately show ?thesis using ft np thrown by (simp add: sample_resolve)
qed

text \<open>
  C8 as stated fails. A height of \<open>0\<close> is present and not empty, and the height
  shown is the default; a short-form diameter of \<open>0\<close> is present and not empty, and
  the diameter shown comes from the long form.
\<close>

theorem zero_is_not_resolved_counterexample:
  "spec_present (get zero_height ''h'')
   \<and> map_sum id height (resolve sample_fmt zero_height) = Inr ''N/A''
   \<and> spec_present (get zero_before_long ''d'')
   \<and> map_sum id diameter (resolve sample_fmt zero_before_long) = Inr ''12 cm''"
  by (simp add: spec_present_def zero_height_def zero_before_long_def resolve_def or_js_def
        with_unit_def sample_fmt_def)


section \<open>Calls that overlap\<close>

lemma after_loop_isLoading [simp]: "isLoading (fst (after_loop lib d out s)) = isLoading s"
  by (cases out) (simp_all add: after_loop_def)

lemma finish_district_flag:
  "finish_district rest s = (t, s') \<Longrightarrow> t \<noteq> None \<and> isLoading s' = isLoading s"
  by (auto simp: finish_district_def)

lemma continue_ingest_flag:
  "continue_ingest lib d rest es out s = (t, s') \<Longrightarrow> t \<noteq> None \<and> isLoading s' = isLoading s"
  by (auto simp: continue_ingest_def finish_district_def split: prod.splits option.splits)

lemma next_district_flag:
  "next_district ds s = (t, s') \<Longrightarrow>
   (t = None \<longrightarrow> \<not> isLoading s') \<and> (t \<noteq> None \<longrightarrow> isLoading s' = isLoading s)"
  by (induction ds arbitrary: s) (auto simp: finish_district_def split: if_splits)

lemma resume_flag:
  "resume lib r t s = (t', s') \<Longrightarrow>
   (t' = None \<longrightarrow> \<not> isLoading s') \<and> (t' \<noteq> None \<longrightarrow> isLoading s' = isLoading s)"
proof (cases t)
  case (AwaitFetch d rest)
  assume "resume lib r t s = (t', s')"
  with AwaitFetch show ?thesis
    by (cases r) (auto simp: finish_district_def split: if_splits)
next
  case (AwaitJson d rest b)
  assume "resume lib r t s = (t', s')"
  with AwaitJson show ?thesis
    by (cases b) (auto simp: finish_district_def split: prod.splits dest: continue_ingest_flag)
next
  case (AwaitYield d rest es out)
  assume "resume lib r t s = (t', s')"
  with AwaitYield show ?thesis by (auto dest: continue_ingest_flag)
next
  case (AwaitNext rest)
  assume "resume lib r t s = (t', s')"
  with AwaitNext show ?thesis using next_district_flag [of rest s t' s'] by simp
qed

lemma invoke_busy: "isLoading (state sys) \<Longrightarrow> invoke bounds zoom sys = sys"
  by (simp add: invoke_def)

lemma one_cycle_cases:
  "one_cycle sys \<longleftrightarrow>
     (tasks sys = [] \<and> \<not> isLoading (state sys)) \<or> (\<exists>t. tasks sys = [t] \<and> isLoading (state sys))"
  by (auto simp: one_cycle_def split: list.splits)

lemma invoke_one_cycle: "one_cycle sys \<Longrightarrow> one_cycle (invoke bounds zoom sys)"
proof (cases "isLoading (state sys)")
  case True
  assume "one_cycle sys"
  with True show ?thesis by (simp add: invoke_busy)
next
  case False
  assume "one_cycle sys"
  with False have idle: "tasks sys = []" by (auto simp: one_cycle_cases)
  obtain t s2 where n: "next_district (getVisibleDistricts bounds zoom ((state sys)\<lparr>isLoading := True\<rparr>))
      ((state sys)\<lparr>isLoading := True\<rparr>) = (t, s2)"
    by (cases "next_district (getVisibleDistricts bounds zoom ((state sys)\<lparr>isLoading := True\<rparr>))
      ((state sys)\<lparr>isLoading := True\<rparr>)") auto
  from next_district_flag [OF n] show ?thesis
    using False idle n by (cases t) (auto simp: invoke_def one_cycle_cases Let_def)
qed

lemma wake_one_cycle: "one_cycle sys \<Longrightarrow> one_cycle (fire lib (Wake k r) sys)"
proof (cases "k < length (tasks sys)")
  case False
  assume "one_cycle sys"
  with False show ?thesis by simp
next
  case True
  assume "one_cycle sys"
  with True obtain t where t: "tasks sys = [t]" "isLoading (state sys)" "k = 0"
    by (auto simp: one_cycle_cases)
  obtain t' s' where r: "resume lib r t (state sys) = (t', s')"
    by (cases "resume lib r t (state sys)") auto
  from resume_flag [OF r] show ?thesis
    using t r by (cases t') (auto simp: one_cycle_cases)
qed

lemma fire_one_cycle: "one_cycle sys \<Longrightarrow> one_cycle (fire lib ev sys)"
  by (cases ev) (simp_all add: invoke_one_cycle wake_one_cycle del: fire.simps(2))

lemma run_one_cycle: "one_cycle sys \<Longrightarrow> one_cycle (run lib evs sys)"
  unfolding run_def by (induction evs arbitrary: sys) (simp_all add: fire_one_cycle)

lemma initial_one_cycle: "one_cycle (initial idx)"
  by (simp add: one_cycle_def initial_def)

text \<open>
  C4. A call of \<open>loadVisibleDistricts\<close> made while the flag is set returns the state as
  it found it, without any effect: no request, no change to the load state. In the
  event loop such a call leaves the system as it is; and in every state that calls and
  resumptions can reach from the start of the page, at most one call is suspended, and
  the flag is set exactly when one is.
\<close>

theorem overlapping_call_is_noop:
  "(isLoading s \<longrightarrow>
      loadVisibleDistricts lib net bounds zoom s = s
    \<and> new_effects s (loadVisibleDistricts lib net bounds zoom s) = [])
   \<and> (isLoading (state sys) \<longrightarrow> fire lib (Call bounds zoom) sys = sys)
   \<and> length (tasks (run lib evs (initial idx))) \<le> 1
   \<and> (isLoading (state (run lib evs (initial idx))) \<longleftrightarrow> tasks (run lib evs (initial idx)) \<noteq> [])"
proof -
  have "one_cycle (run lib evs (initial idx))" by (rule run_one_cycle) (rule initial_one_cycle)
  then have "length (tasks (run lib evs (initial idx))) \<le> 1"
    and "isLoading (state (run lib evs (initial idx))) \<longleftrightarrow> tasks (run lib evs (initial idx)) \<noteq> []"
    by (auto simp: one_cycle_cases)
  then show ?thesis by (simp add: loadVisibleDistricts_busy invoke_busy)
qed


lemma first_call:
  "run lib [Call madrid 12] (initial (Some two_shards)) =
     \<lparr> state = \<lparr> index = Some two_shards, loadedDistricts = [], districtLayers = Map.empty,
                 isLoading = True, effects = [Fetch (url_of shard1)] \<rparr>,
       tasks = [AwaitFetch shard1 [shard2]] \<rparr>"
  by (simp add: run_def invoke_def initial_def getVisibleDistricts_def two_shards_def perform_def
        shard1_def shard2_def)

theorem overlapping_call_is_noop_witness:
  "isLoading (state (run sample_lib [Call madrid 12] (initial (Some two_shards))))
   \<and> fire sample_lib (Call madrid 13) (run sample_lib [Call madrid 12] (initial (Some two_shards)))
       = run sample_lib [Call madrid 12] (initial (Some two_shards))
   \<and> loadVisibleDistricts sample_lib two_files madrid 13 (state (run sample_lib [Call madrid 12] (initial (Some two_shards))))
       = state (run sample_lib [Call madrid 12] (initial (Some two_shards)))
   \<and> tasks (run sample_lib [Call madrid 12] (initial (Some two_shards))) = [AwaitFetch shard1 [shard2]]"
proof -
  let ?sys = "run sample_lib [Call madrid 12] (initial (Some two_shards))"
  have busy: "isLoading (state ?sys)" by (simp add: first_call)
  have t: "tasks ?sys = [AwaitFetch shard1 [shard2]]" by (simp add: first_call)
  note noop = overlapping_call_is_noop [where s = "state ?sys" and sys = ?sys and bounds = madrid
      and zoom = 13 and net = two_files and lib = sample_lib and evs = "[Call madrid 12]" and idx = "Some two_shards"]
  from noop busy have a: "fire sample_lib (Call madrid 13) ?sys = ?sys" by (elim conjE) simp
  from noop busy have b: "loadVisibleDistricts sample_lib two_files madrid 13 (state ?sys) = state ?sys"
    by (elim conjE) simp
  from busy a b t show ?thesis by (intro conjI)
qed


section \<open>A cycle resumed to its end\<close>

lemma until_yield_Some:
  "until_yield es = (now, Some later) \<Longrightarrow> es = now @ later \<and> length later < length es"
proof (induction es arbitrary: now later rule: until_yield.induct)
  case 1
  then show ?case by simp
next
  case (2 es)
  then show ?case by auto
qed (auto split: prod.splits)

lemma until_yield_None: "until_yield es = (now, None) \<Longrightarrow> es = now"
proof (induction es arbitrary: now rule: until_yield.induct)
  case 1
  then show ?case by simp
next
  case (2 es)
  then show ?case by auto
qed (auto split: prod.splits)


lemma answer_other [simp]:
  "answer net (AwaitFetch d rest) s = net (length (effects s) - 1) (url_of d)"
  by (simp add: answer_def)

lemma completes_after_ingest:
  "continue_ingest lib d rest es out s = (Some t, s1) \<Longrightarrow>
   completes lib net (AwaitNext rest) (report (fst (after_loop lib d out (perform es s)))) s' \<Longrightarrow>
   completes lib net t s1 s'"
proof (induction "length es" arbitrary: es s t s1 rule: less_induct)
  case less
  obtain now later where u: "until_yield es = (now, later)" by (cases "until_yield es") auto
  show ?case
  proof (cases later)
    case None
    with u have "es = now" by (simp add: until_yield_None)
    with less.prems u None show ?thesis
      by (simp add: continue_ingest_def finish_district_def)
  next
    case (Some more)
    with u have "until_yield es = (now, Some more)" by simp
    from until_yield_Some [OF this]
    have es: "es = now @ more" and shorter: "length more < length es" by blast+
    from less.prems(1) u Some have t: "t = AwaitYield d rest more out" and s1: "s1 = perform now s"
      by (simp_all add: continue_ingest_def)
    obtain t2 s2 where c: "continue_ingest lib d rest more out s1 = (Some t2, s2)"
      by (cases "continue_ingest lib d rest more out s1")
         (auto dest: continue_ingest_flag)
    have "completes lib net (AwaitNext rest) (report (fst (after_loop lib d out (perform more s1)))) s'"
      using less.prems(2) es s1 by (simp add: perform_perform)
    from less.hyps [OF shorter c this] have "completes lib net t2 s2 s'" .
    moreover have "resume lib (answer net t s1) t s1 = (Some t2, s2)" using t c by simp
    ultimately show ?thesis by (rule completes.goes_on [rotated])
  qed
qed

lemma completes_finish:
  "completes lib net (AwaitNext rest) (report s) s' \<Longrightarrow>
   finish_district rest s = (Some t, s1) \<Longrightarrow> completes lib net t s1 s'"
  by (auto simp: finish_district_def)

lemma completes_json:
  assumes "code d \<notin> set (loadedDistricts s)"
    and "net (length (effects s)) (url_of d) = Response status b" and "ok status"
    and "completes lib net (AwaitNext rest) (report (loadDistrict lib net d s)) s'"
  shows "completes lib net (AwaitJson d rest b) (perform [Fetch (url_of d)] s) s'"
proof (cases b)
  case Unparsable
  with assms have "loadDistrict lib net d s = perform [Fetch (url_of d)] s"
    by (simp add: loadDistrict_failed)
  with assms(4) have "completes lib net (AwaitNext rest) (report (perform [Fetch (url_of d)] s)) s'"
    by simp
  moreover have "resume lib (answer net (AwaitJson d rest b) (perform [Fetch (url_of d)] s))
      (AwaitJson d rest b) (perform [Fetch (url_of d)] s)
      = (Some (AwaitNext rest), report (perform [Fetch (url_of d)] s))"
    using Unparsable by (simp add: finish_district_def)
  ultimately show ?thesis by (rule completes.goes_on [rotated])
next
  case (Collection features)
  let ?s1 = "perform [Fetch (url_of d)] s"
  let ?es = "fst (ingest lib 0 features [])"
  let ?out = "snd (ingest lib 0 features [])"
  have ld: "loadDistrict lib net d s = fst (after_loop lib d ?out (perform ?es ?s1))"
    using loadDistrict_collection [of d s net status features] assms(1-3) Collection
    by (simp add: perform_perform)
  obtain t2 s2 where c: "continue_ingest lib d rest ?es ?out ?s1 = (Some t2, s2)"
    by (cases "continue_ingest lib d rest ?es ?out ?s1") (auto dest: continue_ingest_flag)
  from assms(4) ld have "completes lib net (AwaitNext rest) (report (fst (after_loop lib d ?out (perform ?es ?s1)))) s'"
    by simp
  from completes_after_ingest [OF c this] have "completes lib net t2 s2 s'" .
  moreover have "resume lib (answer net (AwaitJson d rest b) ?s1) (AwaitJson d rest b) ?s1 = (Some t2, s2)"
    using Collection c by (simp add: case_prod_beta)
  ultimately show ?thesis by (rule completes.goes_on [rotated])
qed

lemma completes_fetch:
  assumes "code d \<notin> set (loadedDistricts s)"
    and "completes lib net (AwaitNext rest) (report (loadDistrict lib net d s)) s'"
  shows "completes lib net (AwaitFetch d rest) (perform [Fetch (url_of d)] s) s'"
proof -
  let ?s1 = "perform [Fetch (url_of d)] s"
  let ?r = "net (length (effects s)) (url_of d)"
  have ans: "answer net (AwaitFetch d rest) ?s1 = ?r" by simp
  show ?thesis
  proof (cases "?r")
    case Rejected
    with assms have "completes lib net (AwaitNext rest) (report ?s1) s'"
      by (simp add: loadDistrict_failed)
    moreover have "resume lib (answer net (AwaitFetch d rest) ?s1) (AwaitFetch d rest) ?s1
        = (Some (AwaitNext rest), report ?s1)"
      using Rejected by (simp add: finish_district_def)
    ultimately show ?thesis by (rule completes.goes_on [rotated])
  next
    case (Response status b)
    show ?thesis
    proof (cases "ok status")
      case False
      with Response have "failed ?r" by (cases b) simp_all
      with assms have "completes lib net (AwaitNext rest) (report ?s1) s'"
        by (simp add: loadDistrict_failed)
      moreover have "resume lib (answer net (AwaitFetch d rest) ?s1) (AwaitFetch d rest) ?s1
          = (Some (AwaitNext rest), report ?s1)"
        using Response False by (simp add: finish_district_def)
      ultimately show ?thesis by (rule completes.goes_on [rotated])
    next
      case True
      from completes_json [OF assms(1) Response True assms(2)]
      have "completes lib net (AwaitJson d rest b) ?s1 s'" .
      moreover have "resume lib (answer net (AwaitFetch d rest) ?s1) (AwaitFetch d rest) ?s1
          = (Some (AwaitJson d rest b), ?s1)"
        using Response True by simp
      ultimately show ?thesis by (rule completes.goes_on [rotated])
    qed
  qed
qed

lemma resume_next_resident:
  "code d \<in> set (loadedDistricts s) \<Longrightarrow>
   resume lib r (AwaitNext (d # rest)) s = resume lib r' (AwaitNext rest) s"
  by simp

lemma completes_next_resident:
  assumes "code d \<in> set (loadedDistricts s)" and "completes lib net (AwaitNext rest) s s'"
  shows "completes lib net (AwaitNext (d # rest)) s s'"
  using assms(2)
proof (cases rule: completes.cases)
  case ends
  then have "resume lib (answer net (AwaitNext (d # rest)) s) (AwaitNext (d # rest)) s = (None, s')"
    using assms(1) by simp
  then show ?thesis by (rule completes.ends)
next
  case (goes_on t' s1)
  then have "resume lib (answer net (AwaitNext (d # rest)) s) (AwaitNext (d # rest)) s = (Some t', s1)"
    using assms(1) by simp
  then show ?thesis using goes_on(2) by (rule completes.goes_on)
qed

lemma completes_next:
  "completes lib net (AwaitNext rest) s ((fst (load_loop lib net rest s))\<lparr>isLoading := False\<rparr>)"
proof (induction rest arbitrary: s)
  case Nil
  show ?case by (rule completes.ends) simp
next
  case (Cons d rest)
  show ?case
  proof (cases "code d \<in> set (loadedDistricts s)")
    case True
    then show ?thesis using Cons.IH [of s]
      by (simp add: load_loop_Cons completes_next_resident)
  next
    case False
    from completes_fetch [OF False Cons.IH [of "report (loadDistrict lib net d s)"]]
    have "completes lib net (AwaitFetch d rest) (perform [Fetch (url_of d)] s)
        ((fst (load_loop lib net (d # rest) s))\<lparr>isLoading := False\<rparr>)"
      using False by (simp add: load_loop_Cons)
    moreover have "resume lib (answer net (AwaitNext (d # rest)) s) (AwaitNext (d # rest)) s
        = (Some (AwaitFetch d rest), perform [Fetch (url_of d)] s)"
      using False by simp
    ultimately show ?thesis by (rule completes.goes_on [rotated])
  qed
qed

lemma completes_deterministic:
  "completes lib net t s s' \<Longrightarrow> completes lib net t s s'' \<Longrightarrow> s' = s''"
proof (induction arbitrary: s'' rule: completes.induct)
  case (ends lib net t s s')
  from ends.prems ends.hyps show ?case by (cases rule: completes.cases) simp_all
next
  case (goes_on lib net t s t' s1 s')
  from goes_on.prems goes_on.hyps(1) have "completes lib net t' s1 s''"
    by (cases rule: completes.cases) simp_all
  then show ?case by (rule goes_on.IH)
qed

text \<open>
  The two readings of a load cycle agree: a call made when no cycle runs either returns
  at once, in the state that \<open>loadVisibleDistricts\<close> computes, or is suspended, and
  resumed until it returns it ends in that state.
\<close>

theorem cycle_runs_to_loadVisibleDistricts:
  assumes "\<not> isLoading s"
  shows "(tasks (invoke bounds zoom \<lparr>state = s, tasks = []\<rparr>) = []
            \<and> state (invoke bounds zoom \<lparr>state = s, tasks = []\<rparr>) = loadVisibleDistricts lib net bounds zoom s)
       \<or> (\<exists>t. tasks (invoke bounds zoom \<lparr>state = s, tasks = []\<rparr>) = [t]
            \<and> completes lib net t (state (invoke bounds zoom \<lparr>state = s, tasks = []\<rparr>))
                 (loadVisibleDistricts lib net bounds zoom s))"
proof -
  let ?s1 = "s\<lparr>isLoading := True\<rparr>"
  let ?ds = "getVisibleDistricts bounds zoom s"
  have c: "completes lib net (AwaitNext ?ds) ?s1 (loadVisibleDistricts lib net bounds zoom s)"
    using completes_next [of lib net ?ds ?s1] assms by (simp add: loadVisibleDistricts_idle)
  then show ?thesis
  proof (cases rule: completes.cases)
    case ends
    then show ?thesis using assms by (simp add: invoke_def)
  next
    case (goes_on t' s1)
    then show ?thesis using assms by (simp add: invoke_def)
  qed
qed


section \<open>A shard is resident only when it is complete\<close>

lemma pending_iff:
  "pending sys \<longleftrightarrow>
     one_cycle sys \<and>
     (\<forall>t \<in> set (tasks sys). \<forall>d. ingesting t = Some d \<longrightarrow> code d \<notin> set (loadedDistricts (state sys)))"
  by (auto simp: pending_def list_all_iff split: option.splits)

lemma finish_district_task:
  "finish_district rest s = (Some t, s') \<Longrightarrow> ingesting t = None"
  by (auto simp: finish_district_def)

lemma continue_ingest_pending:
  "continue_ingest lib d rest es out s = (Some t, s') \<Longrightarrow>
   ingesting t = None \<or> (ingesting t = Some d \<and> loadedDistricts s' = loadedDistricts s)"
  by (auto simp: continue_ingest_def finish_district_def split: prod.splits option.splits)

lemma next_district_pending:
  "next_district ds s = (Some t, s') \<Longrightarrow>
   ingesting t = None \<or> (\<exists>d. ingesting t = Some d \<and> code d \<notin> set (loadedDistricts s'))"
  by (induction ds arbitrary: s) (auto simp: finish_district_def split: if_splits)

lemma resume_pending:
  assumes "resume lib r t s = (Some t', s')"
    and "\<forall>d. ingesting t = Some d \<longrightarrow> code d \<notin> set (loadedDistricts s)"
  shows "\<forall>d. ingesting t' = Some d \<longrightarrow> code d \<notin> set (loadedDistricts s')"
proof (cases t)
  case (AwaitFetch d rest)
  with assms show ?thesis
    by (cases r) (auto simp: finish_district_def split: if_splits)
next
  case (AwaitJson d rest b)
  with assms show ?thesis
    by (cases b) (auto simp: finish_district_def split: prod.splits dest: continue_ingest_pending)
next
  case (AwaitYield d rest es out)
  with assms show ?thesis by (auto dest: continue_ingest_pending)
next
  case (AwaitNext rest)
  with assms show ?thesis using next_district_pending [of rest s t' s'] by auto
qed

lemma invoke_pending: "pending sys \<Longrightarrow> pending (invoke bounds zoom sys)"
proof (cases "isLoading (state sys)")
  case True
  assume "pending sys"
  with True show ?thesis by (simp add: invoke_busy)
next
  case False
  assume p: "pending sys"
  with False have idle: "tasks sys = []" by (auto simp: pending_iff one_cycle_cases)
  from p have "one_cycle sys" by (simp add: pending_iff)
  then have oc: "one_cycle (invoke bounds zoom sys)" by (rule invoke_one_cycle)
  obtain t s2 where n: "next_district (getVisibleDistricts bounds zoom ((state sys)\<lparr>isLoading := True\<rparr>))
      ((state sys)\<lparr>isLoading := True\<rparr>) = (t, s2)"
    by (cases "next_district (getVisibleDistricts bounds zoom ((state sys)\<lparr>isLoading := True\<rparr>))
      ((state sys)\<lparr>isLoading := True\<rparr>)") auto
  show ?thesis
  proof (cases t)
    case None
    with n False idle oc show ?thesis by (simp add: pending_iff invoke_def Let_def)
  next
    case (Some t')
    with n next_district_pending [of _ _ t' s2] False idle oc show ?thesis
      by (auto simp: pending_iff invoke_def Let_def)
  qed
qed

lemma wake_pending: "pending sys \<Longrightarrow> pending (fire lib (Wake k r) sys)"
proof (cases "k < length (tasks sys)")
  case False
  assume "pending sys"
  with False show ?thesis by simp
next
  case True
  assume p: "pending sys"
  then have "one_cycle sys" by (simp add: pending_iff)
  then have oc: "one_cycle (fire lib (Wake k r) sys)" by (rule wake_one_cycle)
  from p True obtain t where t: "tasks sys = [t]" "k = 0"
    by (auto simp: pending_iff one_cycle_cases)
  with p have before: "\<forall>d. ingesting t = Some d \<longrightarrow> code d \<notin> set (loadedDistricts (state sys))"
    by (simp add: pending_iff)
  obtain t' s' where r: "resume lib r t (state sys) = (t', s')"
    by (cases "resume lib r t (state sys)") auto
  show ?thesis
  proof (cases t')
    case None
    with r t oc show ?thesis by (simp add: pending_iff)
  next
    case (Some t'')
    with r resume_pending [of lib r t "state sys" t'' s', OF _ before] t oc show ?thesis
      by (simp add: pending_iff)
  qed
qed

lemma run_pending: "pending sys \<Longrightarrow> pending (run lib evs sys)"
  unfolding run_def
proof (induction evs arbitrary: sys)
  case Nil
  then show ?case by simp
next
  case (Cons ev evs)
  from Cons.prems have "pending (fire lib ev sys)"
    by (cases ev) (simp_all add: invoke_pending wake_pending del: fire.simps(2))
  then show ?case using Cons.IH by simp
qed

lemma initial_pending: "pending (initial idx)"
  by (simp add: pending_iff initial_one_cycle) (simp add: initial_def)

lemma spec_pair_guard: "spec_coordinate_pair f \<Longrightarrow> has_coordinates f"
proof -
  assume a: "spec_coordinate_pair f"
  then obtain xs where c: "get (get f ''geometry'') ''coordinates'' = JArr xs"
    by (auto simp: spec_coordinate_pair_def split: json.splits list.splits)
  then have "truthy (get f ''geometry'')" by (cases "get f ''geometry''") simp_all
  with c show ?thesis by (simp add: has_coordinates_def and_js_def)
qed

lemma pushed_by_valid:
  "\<not> throws lib f \<Longrightarrow> has_coordinates f \<Longrightarrow>
   pushed_by lib f = [\<lparr> latlng = position_of f, props = or_js (get f ''properties'') (JObj []) \<rparr>]"
  by (auto simp: throws_def pushed_by_def circleMarker_of_def position_of_def
        split: sum.splits if_splits prod.splits)

lemma no_refusal_ingest:
  "snd (ingest lib i fs buf) = Inr rem \<Longrightarrow> \<forall>b. AddLayersThrew b \<notin> set (fst (ingest lib i fs buf))"
proof (induction fs arbitrary: i buf)
  case Nil
  show ?case by simp
next
  case (Cons f fs)
  from Cons.prems show ?case
  proof (cases rule: ingest_Cons_runs)
    case (flush m)
    with Cons.IH [OF flush(5)] show ?thesis by (simp add: ingest_Cons_flush)
  next
    case (keep m)
    with Cons.IH [OF keep(3)] show ?thesis by (simp add: ingest_Cons_keep)
  qed
qed

lemma loadDistrict_no_refusal:
  assumes "code d \<notin> set (loadedDistricts s)"
    and "net (length (effects s)) (url_of d) = Response status (Collection features)" "ok status"
    and "ingests lib features"
  shows "\<forall>b. AddLayersThrew b \<notin> set (new_effects s (loadDistrict lib net d s))"
proof -
  from assms(4) obtain rem where r: "snd (ingest lib 0 features []) = Inr rem"
    and a: "rem = [] \<or> adds lib rem"
    by (auto simp: ingests_iff)
  have "new_effects s (loadDistrict lib net d s)
      = Fetch (url_of d) # fst (ingest lib 0 features []) @ (if rem \<noteq> [] then [AddLayers rem] else [])"
    using r by (simp add: loadDistrict_collection [of d s net status features, OF assms(1-3)]
        after_loop_Inr [OF a] new_effects_def)
  then show ?thesis using no_refusal_ingest [OF r] by simp
qed

lemma handed_new_effects:
  "effects s' = effects s @ es \<Longrightarrow> handed (effects s') = handed (effects s) @ handed (new_effects s s')"
  by (simp add: new_effects_def)

text \<open>
  C2. When \<open>loadDistrict\<close> makes a shard resident, its request was answered with a
  collection, the ingestion did not throw, no call of \<open>addLayers\<close> was refused, and
  the layer has received, in order, one render point for each feature that passes the
  guard of line 113 and none for the others; in particular it has received, for every
  feature whose coordinates are a pair, a marker at the position that the pair gives,
  with the feature's attributes. The code is added only after that: when the ingestion
  throws, in the loop body, in a flush of the loop or in the flush of the remainder
  after the loop, the shard is not resident afterwards. When the fetch or the parse
  fails the shard is not resident afterwards. No other code is added. And in every
  state that the event loop can reach, the shard that the suspended call is in the
  middle of loading, at its fetch, its parse or a yield of its ingestion, is not
  resident.
\<close>

theorem resident_only_after_full_handover:
  assumes "code d \<notin> set (loadedDistricts s)"
  shows "(code d \<in> set (loadedDistricts (loadDistrict lib net d s)) \<longrightarrow>
            (\<exists>status features.
                net (length (effects s)) (url_of d) = Response status (Collection features)
              \<and> ok status \<and> ingests lib features
              \<and> handed (new_effects s (loadDistrict lib net d s))
                  = concat (map (pushed_by lib) features)
              \<and> length (handed (new_effects s (loadDistrict lib net d s)))
                  = length (filter has_coordinates features)
              \<and> (\<forall>f \<in> set features.
                    has_coordinates f \<or> spec_coordinate_pair f \<longrightarrow>
                      pushed_by lib f
                        = [\<lparr> latlng = position_of f, props = or_js (get f ''properties'') (JObj []) \<rparr>]
                    \<and> \<lparr> latlng = position_of f, props = or_js (get f ''properties'') (JObj []) \<rparr>
                        \<in> set (handed (new_effects s (loadDistrict lib net d s))))
              \<and> (\<forall>b. AddLayersThrew b \<notin> set (new_effects s (loadDistrict lib net d s)))))
       \<and> (failed (net (length (effects s)) (url_of d)) \<longrightarrow>
            code d \<notin> set (loadedDistricts (loadDistrict lib net d s)))
       \<and> (\<forall>status features.
            net (length (effects s)) (url_of d) = Response status (Collection features)
            \<and> \<not> ingests lib features \<longrightarrow>
            code d \<notin> set (loadedDistricts (loadDistrict lib net d s)))
       \<and> set (loadedDistricts (loadDistrict lib net d s)) \<subseteq> insert (code d) (set (loadedDistricts s))
       \<and> (\<forall>t \<in> set (tasks (run lib evs (initial idx))). \<forall>d'.
             ingesting t = Some d' \<longrightarrow>
             code d' \<notin> set (loadedDistricts (state (run lib evs (initial idx)))))"
proof (intro conjI impI allI)
  let ?new = "new_effects s (loadDistrict lib net d s)"
  assume res: "code d \<in> set (loadedDistricts (loadDistrict lib net d s))"
  with assms have "succeeds lib (net (length (effects s)) (url_of d))"
    by (simp add: loadDistrict_loaded split: if_splits)
  then obtain status features
    where r: "net (length (effects s)) (url_of d) = Response status (Collection features)"
      "ok status" "ingests lib features"
    by (auto simp: succeeds_iff)
  have nt: "\<forall>f \<in> set features. \<not> throws lib f"
    using runs_through_no_throw [OF ingests_runs_through [OF r(3)]] .
  from loadDistrict_handed(1) [of d s net status features lib, OF assms r]
    handed_new_effects [OF loadDistrict_prefix [of lib net d s]]
  have h: "handed ?new = concat (map (pushed_by lib) features)"
    by (simp add: points_def)
  have l: "length (handed ?new) = length (filter has_coordinates features)"
    using length_points [OF nt] by (simp add: h points_def)
  have v: "\<forall>f \<in> set features.
      has_coordinates f \<or> spec_coordinate_pair f \<longrightarrow>
        pushed_by lib f = [\<lparr> latlng = position_of f, props = or_js (get f ''properties'') (JObj []) \<rparr>]
      \<and> \<lparr> latlng = position_of f, props = or_js (get f ''properties'') (JObj []) \<rparr> \<in> set (handed ?new)"
  proof (intro ballI impI)
    fix f
    assume f: "f \<in> set features" and "has_coordinates f \<or> spec_coordinate_pair f"
    then have g: "has_coordinates f" using spec_pair_guard by blast
    from f nt have "\<not> throws lib f" by simp
    from pushed_by_valid [OF this g]
    have p: "pushed_by lib f
        = [\<lparr> latlng = position_of f, props = or_js (get f ''properties'') (JObj []) \<rparr>]" .
    with f have "\<lparr> latlng = position_of f, props = or_js (get f ''properties'') (JObj []) \<rparr>
        \<in> set (handed ?new)"
      unfolding h by (simp add: image_iff) (metis list.set_intros(1))
    with p show "pushed_by lib f
        = [\<lparr> latlng = position_of f, props = or_js (get f ''properties'') (JObj []) \<rparr>]
      \<and> \<lparr> latlng = position_of f, props = or_js (get f ''properties'') (JObj []) \<rparr> \<in> set (handed ?new)"
      by simp
  qed
  have n: "\<forall>b. AddLayersThrew b \<notin> set ?new"
    using loadDistrict_no_refusal [of d s net status features lib, OF assms r] .
  from r h l v n show "\<exists>status features.
                net (length (effects s)) (url_of d) = Response status (Collection features)
              \<and> ok status \<and> ingests lib features
              \<and> handed (new_effects s (loadDistrict lib net d s))
                  = concat (map (pushed_by lib) features)
              \<and> length (handed (new_effects s (loadDistrict lib net d s)))
                  = length (filter has_coordinates features)
              \<and> (\<forall>f \<in> set features.
                    has_coordinates f \<or> spec_coordinate_pair f \<longrightarrow>
                      pushed_by lib f
                        = [\<lparr> latlng = position_of f, props = or_js (get f ''properties'') (JObj []) \<rparr>]
                    \<and> \<lparr> latlng = position_of f, props = or_js (get f ''properties'') (JObj []) \<rparr>
                        \<in> set (handed (new_effects s (loadDistrict lib net d s))))
              \<and> (\<forall>b. AddLayersThrew b \<notin> set (new_effects s (loadDistrict lib net d s)))"
    by blast
next
  assume "failed (net (length (effects s)) (url_of d))"
  then show "code d \<notin> set (loadedDistricts (loadDistrict lib net d s))"
    using assms by (simp add: loadDistrict_failed)
next
  fix status features
  assume "net (length (effects s)) (url_of d) = Response status (Collection features)
      \<and> \<not> ingests lib features"
  then have "\<not> succeeds lib (net (length (effects s)) (url_of d))" by simp
  then show "code d \<notin> set (loadedDistricts (loadDistrict lib net d s))"
    using assms by (simp add: loadDistrict_loaded)
next
  show "set (loadedDistricts (loadDistrict lib net d s)) \<subseteq> insert (code d) (set (loadedDistricts s))"
    by (auto simp: loadDistrict_loaded split: if_splits)
next
  have "pending (run lib evs (initial idx))" by (rule run_pending) (rule initial_pending)
  then show "\<forall>t \<in> set (tasks (run lib evs (initial idx))). \<forall>d'.
             ingesting t = Some d' \<longrightarrow>
             code d' \<notin> set (loadedDistricts (state (run lib evs (initial idx))))"
    by (simp add: pending_iff)
qed

lemma sample_position:
  "position_of tree = (JNum 40.41, JNum (-3.70))"
  by (simp add: position_of_def tree_def elem_at_def)

text \<open>
  A shard of a tree and a feature without geometry becomes resident with the one
  marker handed over. A shard that answers with status 500 does not. A shard of a tree
  and a feature whose latitude is an object does not either: the marker of the second
  feature has no position, the flush after the loop throws, and the lines that mark
  the shard are not reached.
\<close>

theorem resident_only_after_full_handover_witness:
  "code shard1 \<notin> set (loadedDistricts (fresh None))
   \<and> code shard1 \<in> set (loadedDistricts
        (loadDistrict sample_lib (always (Response 200 (Collection [tree, no_geometry]))) shard1 (fresh None)))
   \<and> has_coordinates tree \<and> spec_coordinate_pair tree
   \<and> handed (effects
        (loadDistrict sample_lib (always (Response 200 (Collection [tree, no_geometry]))) shard1 (fresh None)))
      = [\<lparr> latlng = (JNum 40.41, JNum (-3.70)), props = JObj [] \<rparr>]
   \<and> failed (always (Response 500 Unparsable) (length (effects (fresh None))) (url_of shard1))
   \<and> code shard1 \<notin> set (loadedDistricts
        (loadDistrict sample_lib (always (Response 500 Unparsable)) shard1 (fresh None)))
   \<and> \<not> ingests sample_lib [tree, latitude_object]
   \<and> effects (loadDistrict sample_lib
        (always (Response 200 (Collection [tree, latitude_object]))) shard1 (fresh None))
      = [Fetch (url_of shard1),
         AddLayersThrew [\<lparr> latlng = (JNum 40.41, JNum (-3.70)), props = JObj [] \<rparr>,
                         \<lparr> latlng = (JObj [], JNum (-3.70)), props = JObj [] \<rparr>]]
   \<and> code shard1 \<notin> set (loadedDistricts (loadDistrict sample_lib
        (always (Response 200 (Collection [tree, latitude_object]))) shard1 (fresh None)))
   \<and> AwaitFetch shard1 [shard2] \<in> set (tasks (run sample_lib [Call madrid 12] (initial (Some two_shards))))
   \<and> ingesting (AwaitFetch shard1 [shard2]) = Some shard1
   \<and> code shard1 \<notin> set (loadedDistricts (state (run sample_lib [Call madrid 12] (initial (Some two_shards)))))"
proof -
  let ?good = "always (Response 200 (Collection [tree, no_geometry]))"
  let ?bad = "always (Response 500 Unparsable)"
  let ?refused = "always (Response 200 (Collection [tree, latitude_object]))"
  let ?sys = "run sample_lib [Call madrid 12] (initial (Some two_shards))"
  let ?m = "\<lparr> latlng = (JNum 40.41, JNum (-3.70)), props = JObj [] \<rparr>"
  have h: "code shard1 \<notin> set (loadedDistricts (fresh None))" by simp
  have f: "failed (?bad (length (effects (fresh None))) (url_of shard1))" by (simp add: always_def)
  have ok: "ingests sample_lib [tree, no_geometry]"
    by (rule sample_lib_runs) (simp add: sample_throws sample_pushed)
  have g: "code shard1 \<in> set (loadedDistricts (loadDistrict sample_lib ?good shard1 (fresh None)))"
    by (simp add: loadDistrict_loaded always_def ok)
  have ing: "ingest sample_lib 0 [tree, latitude_object] []
      = ([], Inr [?m, \<lparr> latlng = (JObj [], JNum (-3.70)), props = JObj [] \<rparr>])"
    by (simp add: ingest_below_chunk sample_throws chunkSize_def points_def sample_pushed)
  have ni: "\<not> ingests sample_lib [tree, latitude_object]"
    by (simp add: ingests_def ing)
  have log: "effects (loadDistrict sample_lib ?refused shard1 (fresh None))
      = [Fetch (url_of shard1),
         AddLayersThrew [?m, \<lparr> latlng = (JObj [], JNum (-3.70)), props = JObj [] \<rparr>]]"
    by (simp add: loadDistrict_collection [of shard1 "fresh None" ?refused 200 "[tree, latitude_object]"]
          always_def ing after_loop_def)
  have t: "AwaitFetch shard1 [shard2] \<in> set (tasks ?sys)" by (simp add: first_call)
  have i: "ingesting (AwaitFetch shard1 [shard2]) = Some shard1" by simp
  note good = resident_only_after_full_handover [of shard1 "fresh None" sample_lib ?good
      "[Call madrid 12]" "Some two_shards", OF h]
  note bad = resident_only_after_full_handover [of shard1 "fresh None" sample_lib ?bad
      "[Call madrid 12]" "Some two_shards", OF h]
  note refused = resident_only_after_full_handover [of shard1 "fresh None" sample_lib ?refused
      "[Call madrid 12]" "Some two_shards", OF h]
  from good [THEN conjunct1, THEN mp, OF g] obtain status features
    where "?good (length (effects (fresh None))) (url_of shard1) = Response status (Collection features)"
      and "handed (new_effects (fresh None) (loadDistrict sample_lib ?good shard1 (fresh None)))
        = concat (map (pushed_by sample_lib) features)"
    by blast
  then have a: "handed (effects (loadDistrict sample_lib ?good shard1 (fresh None))) = [?m]"
    by (auto simp: always_def new_effects_def sample_pushed)
  from bad [THEN conjunct2, THEN conjunct1, THEN mp, OF f]
  have b: "code shard1 \<notin> set (loadedDistricts (loadDistrict sample_lib ?bad shard1 (fresh None)))" .
  from refused [THEN conjunct2, THEN conjunct2, THEN conjunct1] ni
  have r: "code shard1 \<notin> set (loadedDistricts (loadDistrict sample_lib ?refused shard1 (fresh None)))"
    by (simp add: always_def)
  from good [THEN conjunct2, THEN conjunct2, THEN conjunct2, THEN conjunct2]
  have "\<forall>t \<in> set (tasks ?sys). \<forall>d'. ingesting t = Some d' \<longrightarrow>
      code d' \<notin> set (loadedDistricts (state ?sys))" .
  with t i have c: "code shard1 \<notin> set (loadedDistricts (state ?sys))" by blast
  from h g a f b ni log r t i c show ?thesis by (simp add: sample_guard sample_pair)
qed


end
